theory Spec2Isabelle
  imports Complex_Main "HOL-Library.AList" "HOL-Library.Multiset"
begin

section \<open>Job store (backend/job\_manager.py)\<close>

text \<open>
  Python strings are modelled as \<^typ>\<open>string\<close>, a \<open>datetime\<close> as the number of microseconds
  since the epoch and \<open>timedelta(seconds=n)\<close> as \<open>n * 1000000\<close> microseconds. The calls
  \<open>datetime.utcnow()\<close> and \<open>uuid.uuid4()\<close> read the environment, so their results are
  parameters of the operations that make them.
\<close>

datatype JobStatus = PENDING | PROCESSING | COMPLETED | FAILED

type_synonym datetime = int

definition timedelta :: "int \<Rightarrow> int" where
  "timedelta seconds = seconds * 1000000"

record 'r JobState =
  job_id :: string
  status :: JobStatus
  progress_percentage :: int
  current_step :: string
  result :: "'r option"
  error :: "string option"
  created_at :: datetime
  updated_at :: datetime

text \<open>
  The keyword arguments that the mutators of the manager pass to \<open>JobState.update\<close>. Each
  names a field of the dataclass, so the \<open>hasattr\<close> test holds and the field is assigned.
\<close>

datatype 'r kwarg =
    Kw_status JobStatus
  | Kw_progress_percentage int
  | Kw_current_step string
  | Kw_result "'r option"
  | Kw_error "string option"

fun setattr :: "'r JobState \<Rightarrow> 'r kwarg \<Rightarrow> 'r JobState" where
  "setattr j (Kw_status v) = j\<lparr>status := v\<rparr>"
| "setattr j (Kw_progress_percentage v) = j\<lparr>progress_percentage := v\<rparr>"
| "setattr j (Kw_current_step v) = j\<lparr>current_step := v\<rparr>"
| "setattr j (Kw_result v) = j\<lparr>result := v\<rparr>"
| "setattr j (Kw_error v) = j\<lparr>error := v\<rparr>"

definition JobState_update :: "datetime \<Rightarrow> 'r kwarg list \<Rightarrow> 'r JobState \<Rightarrow> 'r JobState" where
  "JobState_update now kwargs j = (foldl setattr j kwargs)\<lparr>updated_at := now\<rparr>"

text \<open>
  The manager's dictionary \<open>_jobs\<close> holds references to \<open>JobState\<close> objects, and
  \<open>get_job\<close> hands such a reference to its caller. The objects therefore live in an
  explicit store \<open>objs\<close>, addressed by natural numbers; \<open>jobs\<close> is the dictionary in
  insertion order and \<open>fresh\<close> the next unused address.
\<close>

record 'r JobManager =
  jobs :: "(string \<times> nat) list"
  objs :: "nat \<Rightarrow> 'r JobState"
  fresh :: nat
  retention_seconds :: int

definition new_JobState :: "string \<Rightarrow> datetime \<Rightarrow> 'r JobState" where
  "new_JobState jid now =
     \<lparr>job_id = jid, status = PENDING, progress_percentage = 0,
      current_step = ''Initializing...'', result = None, error = None,
      created_at = now, updated_at = now\<rparr>"

definition JobManager_init :: "int \<Rightarrow> 'r JobManager" where
  "JobManager_init retention =
     \<lparr>jobs = [], objs = (\<lambda>a. new_JobState [] 0), fresh = 0, retention_seconds = retention\<rparr>"

definition is_old_job :: "datetime \<Rightarrow> 'r JobState \<Rightarrow> bool" where
  "is_old_job cutoff_time job \<longleftrightarrow>
     (status job = COMPLETED \<or> status job = FAILED) \<and> updated_at job < cutoff_time"

definition cleanup_old_jobs :: "datetime \<Rightarrow> 'r JobManager \<Rightarrow> 'r JobManager" where
  "cleanup_old_jobs now m =
     (let cutoff_time = now - timedelta (retention_seconds m);
          jobs_to_remove = map fst (filter (\<lambda>(jid, a). is_old_job cutoff_time (objs m a)) (jobs m))
      in m\<lparr>jobs := foldl (\<lambda>d jid. AList.delete jid d) (jobs m) jobs_to_remove\<rparr>)"

definition create_job :: "string \<Rightarrow> datetime \<Rightarrow> 'r JobManager \<Rightarrow> 'r JobManager" where
  "create_job jid now m =
     m\<lparr>objs := (objs m)(fresh m := new_JobState jid now),
       jobs := AList.update jid (fresh m) (jobs m),
       fresh := Suc (fresh m)\<rparr>"

definition get_job :: "string \<Rightarrow> 'r JobManager \<Rightarrow> nat option" where
  "get_job jid m = map_of (jobs m) jid"

definition update_job :: "datetime \<Rightarrow> string \<Rightarrow> 'r kwarg list \<Rightarrow> 'r JobManager \<Rightarrow> 'r JobManager" where
  "update_job now jid kwargs m =
     (case map_of (jobs m) jid of
        None \<Rightarrow> m
      | Some a \<Rightarrow> m\<lparr>objs := (objs m)(a := JobState_update now kwargs (objs m a))\<rparr>)"

definition set_processing :: "datetime \<Rightarrow> string \<Rightarrow> string \<Rightarrow> 'r JobManager \<Rightarrow> 'r JobManager" where
  "set_processing now jid step m =
     update_job now jid [Kw_status PROCESSING, Kw_current_step step] m"

definition set_progress :: "datetime \<Rightarrow> string \<Rightarrow> int \<Rightarrow> string \<Rightarrow> 'r JobManager \<Rightarrow> 'r JobManager" where
  "set_progress now jid percentage step m =
     update_job now jid
       [Kw_progress_percentage (min 100 (max 0 percentage)), Kw_current_step step] m"

definition set_completed :: "datetime \<Rightarrow> string \<Rightarrow> 'r \<Rightarrow> 'r JobManager \<Rightarrow> 'r JobManager" where
  "set_completed now jid res m =
     update_job now jid
       [Kw_status COMPLETED, Kw_progress_percentage 100, Kw_current_step ''Completed'',
        Kw_result (Some res)] m"

definition set_failed :: "datetime \<Rightarrow> string \<Rightarrow> string \<Rightarrow> 'r JobManager \<Rightarrow> 'r JobManager" where
  "set_failed now jid err m =
     update_job now jid
       [Kw_status FAILED, Kw_current_step ''Failed'', Kw_error (Some err)] m"

text \<open>
  What a caller holding the reference \<open>a\<close> does when it assigns to the object's
  attributes or calls its \<open>update\<close> method: the object at \<open>a\<close> is replaced by \<open>f\<close> of it.
\<close>

definition mutate_object :: "nat \<Rightarrow> ('r JobState \<Rightarrow> 'r JobState) \<Rightarrow> 'r JobManager \<Rightarrow> 'r JobManager" where
  "mutate_object a f m = m\<lparr>objs := (objs m)(a := f (objs m a))\<rparr>"

text \<open>The job a reader sees under an id: the object the dictionary refers to.\<close>

definition job_of :: "'r JobManager \<Rightarrow> string \<Rightarrow> 'r JobState option" where
  "job_of m jid = map_option (objs m) (get_job jid m)"

subsection \<open>The retention sweep\<close>

lemma map_of_foldl_delete:
  "map_of (foldl (\<lambda>d jid. AList.delete jid d) al ks) k =
     (if k \<in> set ks then None else map_of al k)"
proof (induction ks arbitrary: al)
  case Nil
  show ?case by simp
next
  case (Cons x ks)
  show ?case
    by (simp add: Cons.IH AList.delete_conv')
qed

lemma distinct_key_lookup:
  assumes "distinct (map fst al)" and "map_of al k = Some a"
  shows "(k \<in> fst ` set (filter (\<lambda>(jid, b). P b) al)) \<longleftrightarrow> P a"
proof
  assume "k \<in> fst ` set (filter (\<lambda>(jid, b). P b) al)"
  then obtain b where b: "(k, b) \<in> set al" "P b" by auto
  from assms(1) b(1) have "map_of al k = Some b" by simp
  with assms(2) b(2) show "P a" by simp
next
  assume "P a"
  moreover from assms(2) have "(k, a) \<in> set al" by (rule map_of_SomeD)
  ultimately show "k \<in> fst ` set (filter (\<lambda>(jid, b). P b) al)" by force
qed

lemma get_job_cleanup_old_jobs:
  assumes "distinct (map fst (jobs m))" and "get_job jid m = Some a"
  shows "get_job jid (cleanup_old_jobs now m) =
           (if is_old_job (now - timedelta (retention_seconds m)) (objs m a) then None else Some a)"
proof -
  let ?P = "is_old_job (now - timedelta (retention_seconds m))"
  let ?ks = "map fst (filter (\<lambda>(jid, b). ?P (objs m b)) (jobs m))"
  have "get_job jid (cleanup_old_jobs now m) = (if jid \<in> set ?ks then None else get_job jid m)"
    by (simp add: get_job_def cleanup_old_jobs_def Let_def map_of_foldl_delete)
  moreover have "jid \<in> set ?ks \<longleftrightarrow> ?P (objs m a)"
    using distinct_key_lookup [OF assms(1), of jid a "\<lambda>b. ?P (objs m b)"] assms(2)
    by (simp add: get_job_def)
  ultimately show ?thesis
    using assms(2) by simp
qed

lemma get_job_cleanup_old_jobs_absent:
  "get_job k m = None \<Longrightarrow> get_job k (cleanup_old_jobs now m) = None"
  by (simp add: get_job_def cleanup_old_jobs_def Let_def map_of_foldl_delete)

lemma objs_cleanup_old_jobs: "objs (cleanup_old_jobs now m) = objs m"
  by (simp add: cleanup_old_jobs_def Let_def)

lemma distinct_foldl_delete:
  "distinct (map fst al) \<Longrightarrow> distinct (map fst (foldl (\<lambda>d jid. AList.delete jid d) al ks))"
  by (induction ks arbitrary: al) (simp_all add: AList.distinct_delete)

text \<open>
  The keys of \<open>jobs\<close> stay distinct: the store starts empty and every operation keeps
  them so.
\<close>

lemma distinct_jobs_invariant:
  "distinct (map fst (jobs (JobManager_init r)))"
  "distinct (map fst (jobs m)) \<Longrightarrow> distinct (map fst (jobs (create_job jid now m)))"
  "distinct (map fst (jobs m)) \<Longrightarrow> distinct (map fst (jobs (update_job now jid kw m)))"
  "distinct (map fst (jobs m)) \<Longrightarrow> distinct (map fst (jobs (cleanup_old_jobs now m)))"
  by (simp_all add: JobManager_init_def create_job_def update_job_def cleanup_old_jobs_def Let_def
        AList.distinct_update distinct_foldl_delete split: option.splits)

lemmas store_eval =
  create_job_def set_completed_def set_failed_def set_progress_def set_processing_def
  update_job_def JobManager_init_def new_JobState_def JobState_update_def get_job_def
  cleanup_old_jobs_def timedelta_def is_old_job_def

text \<open>
  C5. One pass of \<open>_cleanup_old_jobs\<close> removes a stored job exactly when its status is
  COMPLETED or FAILED and its \<open>updated_at\<close> is strictly before \<open>now\<close> minus the retention
  window. A job that is kept keeps its reference, no object is changed, and an id that was
  absent stays absent. The hypothesis says that \<open>jobs\<close> is a dictionary: no key occurs twice.
\<close>

theorem cleanup_old_jobs_removes_iff:
  assumes "distinct (map fst (jobs m))" and "get_job jid m = Some a"
  shows "(get_job jid (cleanup_old_jobs now m) = None \<longleftrightarrow>
            (status (objs m a) = COMPLETED \<or> status (objs m a) = FAILED) \<and>
            updated_at (objs m a) < now - timedelta (retention_seconds m))
         \<and> (get_job jid (cleanup_old_jobs now m) = None \<or>
            get_job jid (cleanup_old_jobs now m) = Some a)
         \<and> objs (cleanup_old_jobs now m) = objs m
         \<and> (\<forall>k. get_job k m = None \<longrightarrow> get_job k (cleanup_old_jobs now m) = None)"
  using get_job_cleanup_old_jobs [OF assms, of now]
  by (simp add: is_old_job_def get_job_cleanup_old_jobs_absent objs_cleanup_old_jobs)

definition sweep_example :: "unit JobManager" where
  "sweep_example =
     set_completed 10 ''done'' ()
       (create_job ''done'' 0 (create_job ''busy'' 0 (JobManager_init 3600)))"

theorem cleanup_old_jobs_removes_iff_witness:
  "distinct (map fst (jobs sweep_example)) \<and> get_job ''done'' sweep_example = Some 1
   \<and> get_job ''done'' (cleanup_old_jobs 3600000011 sweep_example) = None
   \<and> get_job ''done'' (cleanup_old_jobs 3600000010 sweep_example) = Some 1
   \<and> get_job ''busy'' sweep_example = Some 0
   \<and> get_job ''busy'' (cleanup_old_jobs 9000000000 sweep_example) = Some 0"
proof -
  have d: "distinct (map fst (jobs sweep_example))"
    by (simp add: sweep_example_def store_eval)
  have g: "get_job ''done'' sweep_example = Some 1"
    by (simp add: sweep_example_def store_eval)
  have b: "get_job ''busy'' sweep_example = Some 0"
    by (simp add: sweep_example_def store_eval)
  have s: "status (objs sweep_example 1) = COMPLETED" "updated_at (objs sweep_example 1) = 10"
     "retention_seconds sweep_example = 3600" "status (objs sweep_example 0) = PENDING"
    by (simp_all add: sweep_example_def store_eval)
  show ?thesis
    using cleanup_old_jobs_removes_iff [OF d g, of 3600000011]
          cleanup_old_jobs_removes_iff [OF d g, of 3600000010]
          cleanup_old_jobs_removes_iff [OF d b, of 9000000000] d g b s
    by (auto simp: timedelta_def)
qed

subsection \<open>What \<open>get_job\<close> returns\<close>

definition live_ref_example :: "unit JobManager" where
  "live_ref_example = create_job ''j1'' 0 (JobManager_init 3600)"

text \<open>
  C2 fails on the code: \<open>get_job\<close> returns \<open>self._jobs.get(job_id)\<close>, the stored object
  itself. A caller that calls \<open>update(progress_percentage=55)\<close> or
  \<open>update(status=COMPLETED)\<close> on the returned object changes what the next \<open>get_job\<close>
  shows, and what the sweep decides an hour later.
\<close>

theorem get_job_snapshot_counterexample:
  "get_job ''j1'' live_ref_example = Some 0
   \<and> job_of (mutate_object 0 (JobState_update 5 [Kw_progress_percentage 55]) live_ref_example) ''j1''
       \<noteq> job_of live_ref_example ''j1''
   \<and> get_job ''j1'' (cleanup_old_jobs 3600000006 live_ref_example) = Some 0
   \<and> get_job ''j1'' (cleanup_old_jobs 3600000006
        (mutate_object 0 (JobState_update 5 [Kw_status COMPLETED]) live_ref_example)) = None"
  by (simp add: live_ref_example_def store_eval mutate_object_def job_of_def)

text \<open>
  C2 as amended. \<open>get_job\<close> returns the reference held by the dictionary and copies
  nothing: after a caller has applied any change \<open>f\<close> to the returned object, the same id
  still yields the same reference, a reader sees the changed object, and the sweep judges the
  changed object. \<open>get_job\<close> itself is a pure read of the dictionary.
\<close>

theorem get_job_live_reference:
  assumes "distinct (map fst (jobs m))" and "get_job jid m = Some a"
  shows "job_of m jid = Some (objs m a)
         \<and> get_job jid (mutate_object a f m) = Some a
         \<and> job_of (mutate_object a f m) jid = Some (f (objs m a))
         \<and> get_job jid (cleanup_old_jobs now (mutate_object a f m)) =
             (if is_old_job (now - timedelta (retention_seconds m)) (f (objs m a))
              then None else Some a)"
proof -
  let ?m = "mutate_object a f m"
  have d: "distinct (map fst (jobs ?m))" using assms(1) by (simp add: mutate_object_def)
  have g: "get_job jid ?m = Some a" using assms(2) by (simp add: mutate_object_def get_job_def)
  have o: "objs ?m a = f (objs m a)" by (simp add: mutate_object_def)
  have r: "retention_seconds ?m = retention_seconds m" by (simp add: mutate_object_def)
  show ?thesis
    using get_job_cleanup_old_jobs [OF d g, of now] g o r assms(2)
    by (simp add: job_of_def)
qed

theorem get_job_live_reference_witness:
  "distinct (map fst (jobs live_ref_example)) \<and> get_job ''j1'' live_ref_example = Some 0
   \<and> map_option progress_percentage (job_of live_ref_example ''j1'') = Some 0
   \<and> map_option progress_percentage
        (job_of (mutate_object 0 (JobState_update 5 [Kw_progress_percentage 55]) live_ref_example)
           ''j1'') = Some 55"
proof -
  have d: "distinct (map fst (jobs live_ref_example))"
    by (simp add: live_ref_example_def store_eval)
  have g: "get_job ''j1'' live_ref_example = Some 0"
    by (simp add: live_ref_example_def store_eval)
  have p: "progress_percentage (objs live_ref_example 0) = 0"
    by (simp add: live_ref_example_def store_eval)
  show ?thesis
    using get_job_live_reference [OF d g, of "JobState_update 5 [Kw_progress_percentage 55]"] d g p
    by (simp add: JobState_update_def)
qed

section \<open>User-facing error messages (utils/error\_handler.py)\<close>

text \<open>
  The exception classes \<open>format_error_for_user\<close> tells apart, each with the attributes the
  function reads. \<open>OtherException\<close> stands for any exception outside the
  \<open>RecommenderException\<close> hierarchy and carries \<open>str(error)\<close>. The pictographs that open
  the messages are spelled as their UTF-8 bytes.
\<close>

datatype exn =
    CVParsingError string
  | JobAnalysisError string
  | SkillGapAnalysisError string
  | ProjectRecommendationError string
  | RateLimitError string "int option"
  | APIError string string
  | ConfigurationError string
  | RecommenderException string
  | OtherException string

fun str_of_nat :: "nat \<Rightarrow> string" where
  "str_of_nat n =
     (if n < 10 then [char_of (48 + n)]
      else str_of_nat (n div 10) @ [char_of (48 + n mod 10)])"

declare str_of_nat.simps [simp del]

definition str_of_int :: "int \<Rightarrow> string" where
  "str_of_int i = (if i < 0 then CHR ''-'' # str_of_nat (nat (- i)) else str_of_nat (nat i))"

definition cross_mark :: string where
  "cross_mark = [CHR 0xE2, CHR 0x9D, CHR 0x8C]"

definition stopwatch :: string where
  "stopwatch = [CHR 0xE2, CHR 0x8F, CHR 0xB1, CHR 0xEF, CHR 0xB8, CHR 0x8F]"

definition globe :: string where
  "globe = [CHR 0xF0, CHR 0x9F, CHR 0x8C, CHR 0x90]"

definition gear :: string where
  "gear = [CHR 0xE2, CHR 0x9A, CHR 0x99, CHR 0xEF, CHR 0xB8, CHR 0x8F]"

fun format_error_for_user :: "exn \<Rightarrow> string" where
  "format_error_for_user (CVParsingError message) =
     cross_mark @ '' Failed to parse CV: '' @ message
       @ ''. Please ensure the file is a valid PDF or DOCX.''"
| "format_error_for_user (JobAnalysisError message) =
     cross_mark @ '' Failed to analyze job description: '' @ message
       @ ''. Please check the job description text.''"
| "format_error_for_user (RateLimitError api_name retry_after) =
     stopwatch @ '' API rate limit exceeded for '' @ api_name @ ''.''
       @ (case retry_after of
            None \<Rightarrow> []
          | Some n \<Rightarrow> if n = 0 then [] else '' Please wait '' @ str_of_int n @ '' seconds.'')"
| "format_error_for_user (APIError message api_name) =
     globe @ '' API error ('' @ api_name @ ''): '' @ message @ ''. Please try again later.''"
| "format_error_for_user (ConfigurationError message) =
     gear @ '' Configuration error: '' @ message @ ''. Please check your settings.''"
| "format_error_for_user (SkillGapAnalysisError message) = cross_mark @ '' Error: '' @ message"
| "format_error_for_user (ProjectRecommendationError message) = cross_mark @ '' Error: '' @ message"
| "format_error_for_user (RecommenderException message) = cross_mark @ '' Error: '' @ message"
| "format_error_for_user (OtherException s) =
     cross_mark @ '' An unexpected error occurred: '' @ s @ ''. Please try again.''"

section \<open>The workflow (graph/state.py, graph/nodes.py, graph/workflow.py)\<close>

text \<open>
  The workflow state is the dictionary of \<open>WorkflowState\<close>; every key is present from the
  initial state on. The payloads of the stages are opaque, one type each. Its two progress
  keys carry the suffix \<open>_wf\<close>, the job's attributes of the same name being taken.
\<close>

record ('cv, 'jr, 'sm, 'sg, 'rr) WorkflowState =
  cv_file_path :: "string option"
  cv_text :: "string option"
  job_description :: string
  cv_data :: "'cv option"
  job_requirements :: "'jr option"
  skill_match_analysis :: "'sm option"
  skill_gap_recommendations :: "'sg option"
  recommendation_result :: "'rr option"
  errors :: "string list"
  current_step_wf :: string
  progress_percentage_wf :: int

text \<open>
  The four agents are the external collaborators of the nodes: each call either returns its
  payload or raises. \<open>skill_gap_recommendations_of\<close> is the attribute of the same name of a
  recommendation result.
\<close>

record ('cv, 'jr, 'sm, 'sg, 'rr) agents =
  cv_parser_parse_cv :: "string \<Rightarrow> exn + 'cv"
  cv_parser_parse_cv_text :: "string \<Rightarrow> exn + 'cv"
  job_analyzer_analyze_job :: "string \<Rightarrow> exn + 'jr"
  skill_gap_analyzer_analyze_gaps :: "'cv \<Rightarrow> 'jr \<Rightarrow> exn + 'sm"
  project_recommender_generate_recommendations :: "'cv \<Rightarrow> 'jr \<Rightarrow> exn + 'rr"
  skill_gap_recommendations_of :: "'rr \<Rightarrow> 'sg"

text \<open>
  \<open>state.get(key)\<close> of an optional string, as a condition: \<open>None\<close> and the empty string
  are false.
\<close>

fun get_truthy :: "string option \<Rightarrow> string option" where
  "get_truthy None = None"
| "get_truthy (Some s) = (if s = [] then None else Some s)"

definition append_error ::
  "exn \<Rightarrow> ('cv, 'jr, 'sm, 'sg, 'rr) WorkflowState \<Rightarrow> ('cv, 'jr, 'sm, 'sg, 'rr) WorkflowState" where
  "append_error e s = s\<lparr>errors := errors s @ [format_error_for_user e]\<rparr>"

definition parse_cv_node ::
  "('cv, 'jr, 'sm, 'sg, 'rr) agents \<Rightarrow> ('cv, 'jr, 'sm, 'sg, 'rr) WorkflowState
     \<Rightarrow> ('cv, 'jr, 'sm, 'sg, 'rr) WorkflowState" where
  "parse_cv_node ag s0 =
     (let s = s0\<lparr>current_step_wf := ''Parsing CV...'', progress_percentage_wf := 10\<rparr>;
          parsed =
            (case get_truthy (cv_file_path s) of
               Some p \<Rightarrow> cv_parser_parse_cv ag p
             | None \<Rightarrow>
                 (case get_truthy (cv_text s) of
                    Some t \<Rightarrow> cv_parser_parse_cv_text ag t
                  | None \<Rightarrow> Inl (OtherException ''No CV file path or text provided'')))
      in case parsed of
           Inr cv \<Rightarrow> s\<lparr>cv_data := Some cv, progress_percentage_wf := 25\<rparr>
         | Inl e \<Rightarrow> append_error e s)"

definition analyze_job_node ::
  "('cv, 'jr, 'sm, 'sg, 'rr) agents \<Rightarrow> ('cv, 'jr, 'sm, 'sg, 'rr) WorkflowState
     \<Rightarrow> ('cv, 'jr, 'sm, 'sg, 'rr) WorkflowState" where
  "analyze_job_node ag s0 =
     (let s = s0\<lparr>current_step_wf := ''Analyzing job description...'',
                 progress_percentage_wf := 30\<rparr>
      in case job_analyzer_analyze_job ag (job_description s) of
           Inr jr \<Rightarrow> s\<lparr>job_requirements := Some jr, progress_percentage_wf := 45\<rparr>
         | Inl e \<Rightarrow> append_error e s)"

definition identify_gaps_node ::
  "('cv, 'jr, 'sm, 'sg, 'rr) agents \<Rightarrow> ('cv, 'jr, 'sm, 'sg, 'rr) WorkflowState
     \<Rightarrow> ('cv, 'jr, 'sm, 'sg, 'rr) WorkflowState" where
  "identify_gaps_node ag s0 =
     (let s = s0\<lparr>current_step_wf := ''Identifying skill gaps...'',
                 progress_percentage_wf := 50\<rparr>
      in case (cv_data s, job_requirements s) of
           (Some cv, Some jr) \<Rightarrow>
             (case skill_gap_analyzer_analyze_gaps ag cv jr of
                Inr sm \<Rightarrow> s\<lparr>skill_match_analysis := Some sm, progress_percentage_wf := 60\<rparr>
              | Inl e \<Rightarrow> append_error e s)
         | _ \<Rightarrow> append_error (OtherException ''Missing CV data or job requirements'') s)"

definition generate_recommendations_node ::
  "('cv, 'jr, 'sm, 'sg, 'rr) agents \<Rightarrow> ('cv, 'jr, 'sm, 'sg, 'rr) WorkflowState
     \<Rightarrow> ('cv, 'jr, 'sm, 'sg, 'rr) WorkflowState" where
  "generate_recommendations_node ag s0 =
     (let s = s0\<lparr>current_step_wf := ''Generating project recommendations...'',
                 progress_percentage_wf := 65\<rparr>
      in case (cv_data s, job_requirements s) of
           (Some cv, Some jr) \<Rightarrow>
             (case project_recommender_generate_recommendations ag cv jr of
                Inr rr \<Rightarrow>
                  s\<lparr>recommendation_result := Some rr,
                    skill_gap_recommendations := Some (skill_gap_recommendations_of ag rr),
                    current_step_wf := ''Complete!'',
                    progress_percentage_wf := 100\<rparr>
              | Inl e \<Rightarrow> append_error e s)
         | _ \<Rightarrow> append_error (OtherException ''Missing CV data or job requirements'') s)"

definition error_handler_node ::
  "('cv, 'jr, 'sm, 'sg, 'rr) WorkflowState \<Rightarrow> ('cv, 'jr, 'sm, 'sg, 'rr) WorkflowState" where
  "error_handler_node s = s\<lparr>current_step_wf := ''Error occurred'', progress_percentage_wf := 0\<rparr>"

datatype route = Continue | Error | End

definition should_continue :: "('cv, 'jr, 'sm, 'sg, 'rr) WorkflowState \<Rightarrow> route" where
  "should_continue s =
     (if errors s \<noteq> [] then Error
      else if recommendation_result s \<noteq> None then End
      else Continue)"

text \<open>
  The graph of \<open>create_workflow\<close>: five nodes, the conditional edges of the four stages
  (\<open>None\<close> is \<open>END\<close>) and the plain edge from the error handler to \<open>END\<close>. \<open>invoke_from\<close>
  runs the graph from a node, as the compiled graph does from its entry point, and returns
  the nodes it executed, in order, with the final state.
\<close>

datatype node =
    N_parse_cv | N_analyze_job | N_identify_gaps | N_generate_recommendations | N_error_handler

fun node_fn ::
  "('cv, 'jr, 'sm, 'sg, 'rr) agents \<Rightarrow> node \<Rightarrow> ('cv, 'jr, 'sm, 'sg, 'rr) WorkflowState
     \<Rightarrow> ('cv, 'jr, 'sm, 'sg, 'rr) WorkflowState" where
  "node_fn ag N_parse_cv = parse_cv_node ag"
| "node_fn ag N_analyze_job = analyze_job_node ag"
| "node_fn ag N_identify_gaps = identify_gaps_node ag"
| "node_fn ag N_generate_recommendations = generate_recommendations_node ag"
| "node_fn ag N_error_handler = error_handler_node"

fun conditional_edges :: "node \<Rightarrow> route \<Rightarrow> node option" where
  "conditional_edges N_parse_cv Continue = Some N_analyze_job"
| "conditional_edges N_analyze_job Continue = Some N_identify_gaps"
| "conditional_edges N_identify_gaps Continue = Some N_generate_recommendations"
| "conditional_edges N_generate_recommendations Continue = None"
| "conditional_edges N_error_handler r = None"
| "conditional_edges n Error = Some N_error_handler"
| "conditional_edges n End = None"

fun rank :: "node \<Rightarrow> nat" where
  "rank N_parse_cv = 4"
| "rank N_analyze_job = 3"
| "rank N_identify_gaps = 2"
| "rank N_generate_recommendations = 1"
| "rank N_error_handler = 0"

lemma conditional_edges_rank: "conditional_edges n r = Some n' \<Longrightarrow> rank n' < rank n"
  by (cases n; cases r) auto

function invoke_from ::
  "('cv, 'jr, 'sm, 'sg, 'rr) agents \<Rightarrow> node \<Rightarrow> ('cv, 'jr, 'sm, 'sg, 'rr) WorkflowState
     \<Rightarrow> node list \<times> ('cv, 'jr, 'sm, 'sg, 'rr) WorkflowState" where
  "invoke_from ag n s =
     (let s' = node_fn ag n s
      in case conditional_edges n (should_continue s') of
           None \<Rightarrow> ([n], s')
         | Some n' \<Rightarrow> (case invoke_from ag n' s' of (ns, s'') \<Rightarrow> (n # ns, s'')))"
  by pat_completeness auto
termination
  by (relation "measure (\<lambda>(ag, n, s). rank n)") (auto dest: conditional_edges_rank)

declare invoke_from.simps [simp del]

definition initial_state ::
  "string option \<Rightarrow> string option \<Rightarrow> string \<Rightarrow> ('cv, 'jr, 'sm, 'sg, 'rr) WorkflowState" where
  "initial_state path text jd =
     \<lparr>cv_file_path = path, cv_text = text, job_description = jd,
      cv_data = None, job_requirements = None, skill_match_analysis = None,
      skill_gap_recommendations = None, recommendation_result = None,
      errors = [], current_step_wf = ''Starting...'', progress_percentage_wf = 0\<rparr>"

definition run_workflow ::
  "('cv, 'jr, 'sm, 'sg, 'rr) agents \<Rightarrow> string option \<Rightarrow> string option \<Rightarrow> string
     \<Rightarrow> node list \<times> ('cv, 'jr, 'sm, 'sg, 'rr) WorkflowState" where
  "run_workflow ag path text jd = invoke_from ag N_parse_cv (initial_state path text jd)"

section \<open>Running a job (backend/main.py)\<close>

fun join :: "string \<Rightarrow> string list \<Rightarrow> string" where
  "join sep [] = []"
| "join sep [x] = x"
| "join sep (x # y # ys) = x @ sep @ join sep (y # ys)"

text \<open>
  \<open>process_cv_analysis\<close> drives one job. \<open>clock k\<close> is the \<open>utcnow()\<close> of its \<open>k\<close>-th
  write to the store and \<open>model_dump\<close> serialises the result. The value is the list of the
  stores after each of its four steps, in order: what a reader polling \<open>get_job\<close> or the
  progress stream can see while the job runs; the last one is the store it leaves. The nodes
  catch every exception, so the workflow returns a state and the handler at the end of the
  function has nothing to catch.
\<close>

definition process_cv_analysis ::
  "('cv, 'jr, 'sm, 'sg, 'rr) agents \<Rightarrow> ('rr \<Rightarrow> 'r) \<Rightarrow> (nat \<Rightarrow> datetime) \<Rightarrow> string
     \<Rightarrow> string option \<Rightarrow> string \<Rightarrow> 'r JobManager \<Rightarrow> 'r JobManager list" where
  "process_cv_analysis ag model_dump clock jid path jd m0 =
     (let m1 = set_processing (clock 0) jid ''Parsing CV and analyzing job description...'' m0;
          m2 = set_progress (clock 1) jid 10 ''Initializing workflow...'' m1;
          final_state = snd (run_workflow ag path None jd);
          m3 = (if current_step_wf final_state \<noteq> []
                then set_progress (clock 2) jid (progress_percentage_wf final_state)
                       (current_step_wf final_state) m2
                else m2);
          m4 = (if errors final_state \<noteq> []
                then set_failed (clock 3) jid (join ''; '' (errors final_state)) m3
                else case recommendation_result final_state of
                       Some r \<Rightarrow> set_completed (clock 3) jid (model_dump r) m3
                     | None \<Rightarrow> set_failed (clock 3) jid ''No recommendation result generated'' m3)
      in [m1, m2, m3, m4])"

text \<open>
  A job from its creation on, as \<open>analyze_cv\<close> starts it: the store after \<open>create_job\<close>,
  then the stores of the run.
\<close>

definition job_run ::
  "('cv, 'jr, 'sm, 'sg, 'rr) agents \<Rightarrow> ('rr \<Rightarrow> 'r) \<Rightarrow> (nat \<Rightarrow> datetime) \<Rightarrow> datetime \<Rightarrow> string
     \<Rightarrow> string option \<Rightarrow> string \<Rightarrow> 'r JobManager \<Rightarrow> 'r JobManager list" where
  "job_run ag model_dump clock created jid path jd m =
     create_job jid created m
       # process_cv_analysis ag model_dump clock jid path jd (create_job jid created m)"

definition progress_feed :: "string \<Rightarrow> 'r JobManager list \<Rightarrow> int list" where
  "progress_feed jid ms = List.map_filter (\<lambda>m. map_option progress_percentage (job_of m jid)) ms"

definition status_feed :: "string \<Rightarrow> 'r JobManager list \<Rightarrow> JobStatus list" where
  "status_feed jid ms = List.map_filter (\<lambda>m. map_option status (job_of m jid)) ms"

subsection \<open>How a run ends\<close>

definition ended_in_error :: "('cv, 'jr, 'sm, 'sg, 'rr) WorkflowState \<Rightarrow> bool" where
  "ended_in_error f \<longleftrightarrow>
     errors f \<noteq> [] \<and> progress_percentage_wf f = 0 \<and> current_step_wf f = ''Error occurred''"

definition ended_complete :: "('cv, 'jr, 'sm, 'sg, 'rr) WorkflowState \<Rightarrow> bool" where
  "ended_complete f \<longleftrightarrow>
     errors f = [] \<and> progress_percentage_wf f = 100 \<and> current_step_wf f = ''Complete!''
     \<and> recommendation_result f \<noteq> None"

lemma invoke_error_handler:
  "invoke_from ag N_error_handler s = ([N_error_handler], error_handler_node s)"
  by (simp add: invoke_from.simps)

lemma invoke_generate:
  assumes "errors s = []"
  shows "ended_in_error (snd (invoke_from ag N_generate_recommendations s))
         \<or> ended_complete (snd (invoke_from ag N_generate_recommendations s))"
  using assms
  by (subst (1 2) invoke_from.simps)
     (auto simp: generate_recommendations_node_def Let_def should_continue_def append_error_def
        invoke_error_handler error_handler_node_def ended_in_error_def ended_complete_def
        split: option.splits sum.splits)

lemma invoke_stage:
  assumes "conditional_edges n Continue = Some n'" and "n \<noteq> N_error_handler"
    and "recommendation_result (node_fn ag n s) = None"
  shows "invoke_from ag n s =
           (if errors (node_fn ag n s) = []
            then (n # fst (invoke_from ag n' (node_fn ag n s)),
                  snd (invoke_from ag n' (node_fn ag n s)))
            else ([n, N_error_handler], error_handler_node (node_fn ag n s)))"
proof (cases "errors (node_fn ag n s) = []")
  case True
  then show ?thesis
    using assms(1,3) by (subst invoke_from.simps) (simp add: should_continue_def split_beta Let_def)
next
  case False
  have "conditional_edges n Error = Some N_error_handler"
    using assms(2) by (cases n) simp_all
  with False show ?thesis
    by (subst invoke_from.simps) (simp add: should_continue_def invoke_error_handler Let_def)
qed

lemma parse_cv_node_no_result:
  "recommendation_result s = None \<Longrightarrow> recommendation_result (parse_cv_node ag s) = None"
  by (auto simp: parse_cv_node_def Let_def append_error_def split: option.splits sum.splits)

lemma analyze_job_node_no_result:
  "recommendation_result s = None \<Longrightarrow> recommendation_result (analyze_job_node ag s) = None"
  by (auto simp: analyze_job_node_def Let_def append_error_def split: option.splits sum.splits)

lemma identify_gaps_node_no_result:
  "recommendation_result s = None \<Longrightarrow> recommendation_result (identify_gaps_node ag s) = None"
  by (auto simp: identify_gaps_node_def Let_def append_error_def split: option.splits sum.splits)

lemma error_handler_ended: "errors s \<noteq> [] \<Longrightarrow> ended_in_error (error_handler_node s)"
  by (simp add: ended_in_error_def error_handler_node_def)

lemma invoke_identify:
  assumes "recommendation_result s = None"
  shows "ended_in_error (snd (invoke_from ag N_identify_gaps s))
         \<or> ended_complete (snd (invoke_from ag N_identify_gaps s))"
  using invoke_stage [of N_identify_gaps N_generate_recommendations ag s]
        identify_gaps_node_no_result [OF assms, of ag]
        invoke_generate [of "identify_gaps_node ag s" ag]
        error_handler_ended [of "identify_gaps_node ag s"]
  by (cases "errors (identify_gaps_node ag s) = []") simp_all

lemma invoke_analyze:
  assumes "recommendation_result s = None"
  shows "ended_in_error (snd (invoke_from ag N_analyze_job s))
         \<or> ended_complete (snd (invoke_from ag N_analyze_job s))"
  using invoke_stage [of N_analyze_job N_identify_gaps ag s]
        analyze_job_node_no_result [OF assms, of ag]
        invoke_identify [of "analyze_job_node ag s" ag]
        error_handler_ended [of "analyze_job_node ag s"]
  by (cases "errors (analyze_job_node ag s) = []") simp_all

lemma invoke_parse:
  assumes "recommendation_result s = None"
  shows "ended_in_error (snd (invoke_from ag N_parse_cv s))
         \<or> ended_complete (snd (invoke_from ag N_parse_cv s))"
  using invoke_stage [of N_parse_cv N_analyze_job ag s]
        parse_cv_node_no_result [OF assms, of ag]
        invoke_analyze [of "parse_cv_node ag s" ag]
        error_handler_ended [of "parse_cv_node ag s"]
  by (cases "errors (parse_cv_node ag s) = []") simp_all

lemma run_workflow_ends:
  "ended_in_error (snd (run_workflow ag path text jd))
   \<or> ended_complete (snd (run_workflow ag path text jd))"
  unfolding run_workflow_def
  by (rule invoke_parse) (simp add: initial_state_def)

lemma format_error_for_user_nonempty: "format_error_for_user e \<noteq> []"
  by (cases e) (simp_all add: cross_mark_def stopwatch_def globe_def gear_def)

lemma get_job_update_job [simp]: "get_job k (update_job now jid kw m) = get_job k m"
  by (simp add: update_job_def get_job_def split: option.splits)

lemma objs_update_job:
  "get_job jid m = Some a \<Longrightarrow>
   objs (update_job now jid kw m) = (objs m)(a := JobState_update now kw (objs m a))"
  by (simp add: update_job_def get_job_def)

lemma get_job_create_job: "get_job jid (create_job jid now m) = Some (fresh m)"
  by (simp add: get_job_def create_job_def AList.update_conv')

lemma progress_feed_run:
  assumes "get_job jid m0 = Some a"
  shows "progress_feed jid (m0 # process_cv_analysis ag md clock jid path jd m0) =
           (if errors (snd (run_workflow ag path None jd)) = []
            then [progress_percentage (objs m0 a), progress_percentage (objs m0 a), 10, 100, 100]
            else [progress_percentage (objs m0 a), progress_percentage (objs m0 a), 10, 0, 0])"
  using run_workflow_ends [of ag path None jd] assms
  by (auto simp: progress_feed_def List.map_filter_simps job_of_def process_cv_analysis_def Let_def
        set_processing_def set_progress_def set_failed_def set_completed_def objs_update_job
        JobState_update_def ended_in_error_def ended_complete_def)

lemma status_feed_run:
  assumes "get_job jid m0 = Some a"
  shows "status_feed jid (m0 # process_cv_analysis ag md clock jid path jd m0) =
           (if errors (snd (run_workflow ag path None jd)) = []
            then [status (objs m0 a), PROCESSING, PROCESSING, PROCESSING, COMPLETED]
            else [status (objs m0 a), PROCESSING, PROCESSING, PROCESSING, FAILED])"
  using run_workflow_ends [of ag path None jd] assms
  by (auto simp: status_feed_def List.map_filter_simps job_of_def process_cv_analysis_def Let_def
        set_processing_def set_progress_def set_failed_def set_completed_def objs_update_job
        JobState_update_def ended_in_error_def ended_complete_def)

lemma new_job_progress:
  "progress_percentage (objs (create_job jid now m) (fresh m)) = 0"
  "status (objs (create_job jid now m) (fresh m)) = PENDING"
  by (simp_all add: create_job_def new_JobState_def)

definition stage2_fails :: "(unit, unit, unit, unit, unit) agents" where
  "stage2_fails =
     \<lparr>cv_parser_parse_cv = (\<lambda>p. Inr ()),
      cv_parser_parse_cv_text = (\<lambda>t. Inr ()),
      job_analyzer_analyze_job = (\<lambda>jd. Inl (JobAnalysisError ''no requirements found'')),
      skill_gap_analyzer_analyze_gaps = (\<lambda>cv jr. Inr ()),
      project_recommender_generate_recommendations = (\<lambda>cv jr. Inr ()),
      skill_gap_recommendations_of = (\<lambda>r. ())\<rparr>"

definition all_stages_succeed :: "(unit, unit, unit, unit, unit) agents" where
  "all_stages_succeed =
     \<lparr>cv_parser_parse_cv = (\<lambda>p. Inr ()),
      cv_parser_parse_cv_text = (\<lambda>t. Inr ()),
      job_analyzer_analyze_job = (\<lambda>jd. Inr ()),
      skill_gap_analyzer_analyze_gaps = (\<lambda>cv jr. Inr ()),
      project_recommender_generate_recommendations = (\<lambda>cv jr. Inr ()),
      skill_gap_recommendations_of = (\<lambda>r. ())\<rparr>"

definition tick :: "nat \<Rightarrow> datetime" where
  "tick k = int k"

lemma stage2_fails_run:
  "run_workflow stage2_fails (Some ''cv.pdf'') None ''jd'' =
     ([N_parse_cv, N_analyze_job, N_error_handler],
      \<lparr>cv_file_path = Some ''cv.pdf'', cv_text = None, job_description = ''jd'',
       cv_data = Some (), job_requirements = None, skill_match_analysis = None,
       skill_gap_recommendations = None, recommendation_result = None,
       errors = [format_error_for_user (JobAnalysisError ''no requirements found'')],
       current_step_wf = ''Error occurred'', progress_percentage_wf = 0\<rparr>)"
  by (simp add: run_workflow_def initial_state_def invoke_from.simps stage2_fails_def
        parse_cv_node_def analyze_job_node_def error_handler_node_def append_error_def
        should_continue_def Let_def)

lemma all_stages_succeed_run:
  "run_workflow all_stages_succeed (Some ''cv.pdf'') None ''jd'' =
     ([N_parse_cv, N_analyze_job, N_identify_gaps, N_generate_recommendations],
      \<lparr>cv_file_path = Some ''cv.pdf'', cv_text = None, job_description = ''jd'',
       cv_data = Some (), job_requirements = Some (), skill_match_analysis = Some (),
       skill_gap_recommendations = Some (), recommendation_result = Some (),
       errors = [],
       current_step_wf = ''Complete!'', progress_percentage_wf = 100\<rparr>)"
  by (simp add: run_workflow_def initial_state_def invoke_from.simps all_stages_succeed_def
        parse_cv_node_def analyze_job_node_def identify_gaps_node_def
        generate_recommendations_node_def should_continue_def Let_def)

text \<open>
  C1 fails on the code. When the second stage fails, \<open>error_handler_node\<close> sets the
  workflow's progress to 0 and \<open>process_cv_analysis\<close> copies it into the job with
  \<open>set_progress\<close> before it calls \<open>set_failed\<close>: a reader sees 10 and then 0 while
  the status is still PROCESSING.
\<close>

theorem progress_monotone_counterexample:
  "progress_feed ''j1''
     (job_run stage2_fails id tick 0 ''j1'' (Some ''cv.pdf'') ''jd'' (JobManager_init 3600))
     = [0, 0, 10, 0, 0]
   \<and> status_feed ''j1''
     (job_run stage2_fails id tick 0 ''j1'' (Some ''cv.pdf'') ''jd'' (JobManager_init 3600))
     = [PENDING, PROCESSING, PROCESSING, PROCESSING, FAILED]
   \<and> \<not> sorted (progress_feed ''j1''
     (job_run stage2_fails id tick 0 ''j1'' (Some ''cv.pdf'') ''jd'' (JobManager_init 3600)))"
proof -
  let ?m0 = "create_job ''j1'' 0 (JobManager_init 3600) :: unit JobManager"
  have g: "get_job ''j1'' ?m0 = Some 0"
    by (simp add: get_job_create_job JobManager_init_def)
  have e: "errors (snd (run_workflow stage2_fails (Some ''cv.pdf'') None ''jd'')) \<noteq> []"
    by (simp add: stage2_fails_run)
  have n: "progress_percentage (objs ?m0 0) = 0" "status (objs ?m0 0) = PENDING"
    by (simp_all add: create_job_def new_JobState_def JobManager_init_def)
  show ?thesis
    unfolding job_run_def
    using e n
    by (simp add: progress_feed_run [OF g] status_feed_run [OF g])
qed

text \<open>
  C1 as amended. From its creation on, a job whose run appends no error shows the progress
  values 0, 0, 10, 100, 100, which never decrease. A run that ends in the error handler shows
  0, 0, 10, 0, 0: the handler's 0 is written after 10 and before the job is marked FAILED.
\<close>

theorem progress_feed_job_run:
  "(errors (snd (run_workflow ag path None jd)) = [] \<longrightarrow>
      progress_feed jid (job_run ag md clock created jid path jd m) = [0, 0, 10, 100, 100]
      \<and> sorted (progress_feed jid (job_run ag md clock created jid path jd m))
      \<and> status_feed jid (job_run ag md clock created jid path jd m)
          = [PENDING, PROCESSING, PROCESSING, PROCESSING, COMPLETED])
   \<and> (errors (snd (run_workflow ag path None jd)) \<noteq> [] \<longrightarrow>
      progress_feed jid (job_run ag md clock created jid path jd m) = [0, 0, 10, 0, 0]
      \<and> status_feed jid (job_run ag md clock created jid path jd m)
          = [PENDING, PROCESSING, PROCESSING, PROCESSING, FAILED])"
  unfolding job_run_def
  by (simp add: progress_feed_run [OF get_job_create_job] status_feed_run [OF get_job_create_job]
        new_job_progress)

theorem progress_feed_job_run_witness:
  "errors (snd (run_workflow all_stages_succeed (Some ''cv.pdf'') None ''jd'')) = []
   \<and> sorted (progress_feed ''j1''
        (job_run all_stages_succeed id tick 0 ''j1'' (Some ''cv.pdf'') ''jd'' (JobManager_init 3600)))
   \<and> errors (snd (run_workflow stage2_fails (Some ''cv.pdf'') None ''jd'')) \<noteq> []
   \<and> status_feed ''j1''
        (job_run stage2_fails id tick 0 ''j1'' (Some ''cv.pdf'') ''jd'' (JobManager_init 3600))
      = [PENDING, PROCESSING, PROCESSING, PROCESSING, FAILED]"
  using progress_feed_job_run [of all_stages_succeed "Some ''cv.pdf''" "''jd''" "''j1''" id tick 0
          "JobManager_init 3600"]
        progress_feed_job_run [of stage2_fails "Some ''cv.pdf''" "''jd''" "''j1''" id tick 0
          "JobManager_init 3600"]
  by (simp add: all_stages_succeed_run stage2_fails_run)

subsection \<open>Error routing\<close>

lemma stage2_error_run:
  assumes "p \<noteq> []" and "cv_parser_parse_cv ag p = Inr cv"
    and "job_analyzer_analyze_job ag jd = Inl e"
  shows "fst (run_workflow ag (Some p) None jd) = [N_parse_cv, N_analyze_job, N_error_handler]"
    and "errors (snd (run_workflow ag (Some p) None jd)) = [format_error_for_user e]"
    and "current_step_wf (snd (run_workflow ag (Some p) None jd)) = ''Error occurred''"
  using assms
  by (simp_all add: run_workflow_def initial_state_def invoke_from.simps
        parse_cv_node_def analyze_job_node_def error_handler_node_def append_error_def
        should_continue_def Let_def)

lemma last_process_cv_analysis:
  assumes "get_job jid m0 = Some a"
  shows "objs (last (process_cv_analysis ag md clock jid path jd m0)) a =
           (let f = snd (run_workflow ag path None jd);
                j3 = (if current_step_wf f \<noteq> []
                      then JobState_update (clock 2)
                             [Kw_progress_percentage (min 100 (max 0 (progress_percentage_wf f))),
                              Kw_current_step (current_step_wf f)]
                      else (\<lambda>j. j))
                       (JobState_update (clock 1)
                          [Kw_progress_percentage 10, Kw_current_step ''Initializing workflow...'']
                          (JobState_update (clock 0)
                             [Kw_status PROCESSING,
                              Kw_current_step ''Parsing CV and analyzing job description...'']
                             (objs m0 a)))
            in if errors f \<noteq> []
               then JobState_update (clock 3)
                      [Kw_status FAILED, Kw_current_step ''Failed'',
                       Kw_error (Some (join ''; '' (errors f)))] j3
               else case recommendation_result f of
                      Some r \<Rightarrow>
                        JobState_update (clock 3)
                          [Kw_status COMPLETED, Kw_progress_percentage 100,
                           Kw_current_step ''Completed'', Kw_result (Some (md r))] j3
                    | None \<Rightarrow>
                        JobState_update (clock 3)
                          [Kw_status FAILED, Kw_current_step ''Failed'',
                           Kw_error (Some ''No recommendation result generated'')] j3)"
  using assms
  by (auto simp: process_cv_analysis_def Let_def set_processing_def set_progress_def
        set_failed_def set_completed_def objs_update_job split: option.splits)

text \<open>
  C6. When the first stage succeeds and the job analyser raises, the workflow executes the
  nodes \<open>parse_cv\<close>, \<open>analyze_job\<close> and \<open>error_handler\<close> and no other, and the job is left
  FAILED with the formatted error, a non-empty string. When the workflow ends with an empty
  error list and a recommendation result, the job is left COMPLETED at progress 100 with the
  serialised result.
\<close>

theorem pipeline_error_routing:
  assumes "get_job jid m0 = Some a"
  shows "(p \<noteq> [] \<and> cv_parser_parse_cv ag p = Inr cv \<and> job_analyzer_analyze_job ag jd = Inl e \<longrightarrow>
            fst (run_workflow ag (Some p) None jd) = [N_parse_cv, N_analyze_job, N_error_handler]
            \<and> N_identify_gaps \<notin> set (fst (run_workflow ag (Some p) None jd))
            \<and> N_generate_recommendations \<notin> set (fst (run_workflow ag (Some p) None jd))
            \<and> status (objs (last (process_cv_analysis ag md clock jid (Some p) jd m0)) a) = FAILED
            \<and> error (objs (last (process_cv_analysis ag md clock jid (Some p) jd m0)) a)
                = Some (format_error_for_user e)
            \<and> format_error_for_user e \<noteq> [])
         \<and> (errors (snd (run_workflow ag path None jd)) = []
              \<and> recommendation_result (snd (run_workflow ag path None jd)) = Some r \<longrightarrow>
            status (objs (last (process_cv_analysis ag md clock jid path jd m0)) a) = COMPLETED
            \<and> progress_percentage (objs (last (process_cv_analysis ag md clock jid path jd m0)) a)
                = 100
            \<and> result (objs (last (process_cv_analysis ag md clock jid path jd m0)) a)
                = Some (md r))"
proof (intro conjI impI)
  assume h: "p \<noteq> [] \<and> cv_parser_parse_cv ag p = Inr cv \<and> job_analyzer_analyze_job ag jd = Inl e"
  then have r: "fst (run_workflow ag (Some p) None jd) = [N_parse_cv, N_analyze_job, N_error_handler]"
    and er: "errors (snd (run_workflow ag (Some p) None jd)) = [format_error_for_user e]"
    by (simp_all add: stage2_error_run)
  show "fst (run_workflow ag (Some p) None jd) = [N_parse_cv, N_analyze_job, N_error_handler]"
    by (rule r)
  show "N_identify_gaps \<notin> set (fst (run_workflow ag (Some p) None jd))"
    by (simp add: r)
  show "N_generate_recommendations \<notin> set (fst (run_workflow ag (Some p) None jd))"
    by (simp add: r)
  show "status (objs (last (process_cv_analysis ag md clock jid (Some p) jd m0)) a) = FAILED"
    by (simp add: last_process_cv_analysis [OF assms] er Let_def JobState_update_def)
  show "error (objs (last (process_cv_analysis ag md clock jid (Some p) jd m0)) a)
          = Some (format_error_for_user e)"
    by (simp add: last_process_cv_analysis [OF assms] er Let_def JobState_update_def)
  show "format_error_for_user e \<noteq> []"
    by (rule format_error_for_user_nonempty)
next
  assume h: "errors (snd (run_workflow ag path None jd)) = []
              \<and> recommendation_result (snd (run_workflow ag path None jd)) = Some r"
  show "status (objs (last (process_cv_analysis ag md clock jid path jd m0)) a) = COMPLETED"
    using h by (simp add: last_process_cv_analysis [OF assms] Let_def JobState_update_def)
  show "progress_percentage (objs (last (process_cv_analysis ag md clock jid path jd m0)) a) = 100"
    using h by (simp add: last_process_cv_analysis [OF assms] Let_def JobState_update_def)
  show "result (objs (last (process_cv_analysis ag md clock jid path jd m0)) a) = Some (md r)"
    using h by (simp add: last_process_cv_analysis [OF assms] Let_def JobState_update_def)
qed

theorem pipeline_error_routing_witness:
  "get_job ''j1'' (create_job ''j1'' 0 (JobManager_init 3600) :: unit JobManager) = Some 0
   \<and> cv_parser_parse_cv stage2_fails ''cv.pdf'' = Inr ()
   \<and> job_analyzer_analyze_job stage2_fails ''jd'' = Inl (JobAnalysisError ''no requirements found'')
   \<and> status (objs (last (process_cv_analysis stage2_fails id tick ''j1'' (Some ''cv.pdf'') ''jd''
        (create_job ''j1'' 0 (JobManager_init 3600)))) 0) = FAILED
   \<and> errors (snd (run_workflow all_stages_succeed (Some ''cv.pdf'') None ''jd'')) = []
   \<and> recommendation_result (snd (run_workflow all_stages_succeed (Some ''cv.pdf'') None ''jd''))
       = Some ()
   \<and> status (objs (last (process_cv_analysis all_stages_succeed id tick ''j1'' (Some ''cv.pdf'') ''jd''
        (create_job ''j1'' 0 (JobManager_init 3600)))) 0) = COMPLETED"
proof -
  let ?m0 = "create_job ''j1'' 0 (JobManager_init 3600) :: unit JobManager"
  let ?e = "JobAnalysisError ''no requirements found''"
  have g: "get_job ''j1'' ?m0 = Some 0"
    by (simp add: get_job_create_job JobManager_init_def)
  have h1: "''cv.pdf'' \<noteq> [] \<and> cv_parser_parse_cv stage2_fails ''cv.pdf'' = Inr ()
            \<and> job_analyzer_analyze_job stage2_fails ''jd'' = Inl ?e"
    by (simp add: stage2_fails_def)
  have h2: "errors (snd (run_workflow all_stages_succeed (Some ''cv.pdf'') None ''jd'')) = []
            \<and> recommendation_result (snd (run_workflow all_stages_succeed (Some ''cv.pdf'') None ''jd''))
                = Some ()"
    by (simp add: all_stages_succeed_run)
  have c1: "status (objs (last (process_cv_analysis stage2_fails id tick ''j1'' (Some ''cv.pdf'')
              ''jd'' ?m0)) 0) = FAILED"
    using h1 pipeline_error_routing [OF g, where p = "''cv.pdf''" and ag = stage2_fails
        and cv = "()" and jd = "''jd''" and e = ?e and md = id and clock = tick
        and path = "Some ''cv.pdf''" and r = "()"]
    by blast
  have c2: "status (objs (last (process_cv_analysis all_stages_succeed id tick ''j1''
              (Some ''cv.pdf'') ''jd'' ?m0)) 0) = COMPLETED"
    using h2 pipeline_error_routing [OF g, where p = "''cv.pdf''" and ag = all_stages_succeed
        and cv = "()" and jd = "''jd''" and e = ?e and md = id and clock = tick
        and path = "Some ''cv.pdf''" and r = "()"]
    by blast
  show ?thesis
    using g h1 h2 c1 c2 by simp
qed

section \<open>Rate limiter (utils/rate\_limiter.py)\<close>

text \<open>
  Times and token counts are Python floats; they are modelled as exact rationals, which leaves
  rounding out. \<open>time.time()\<close> is a parameter of the function that reads it.
\<close>

datatype py_error = ZeroDivisionError | ValueError

record TokenBucket =
  rate :: int
  per :: int
  tokens :: rat
  last_update :: rat

definition TokenBucket_init :: "rat \<Rightarrow> int \<Rightarrow> int \<Rightarrow> TokenBucket" where
  "TokenBucket_init now r p = \<lparr>rate = r, per = p, tokens = of_int r, last_update = now\<rparr>"

definition consume :: "rat \<Rightarrow> int \<Rightarrow> TokenBucket \<Rightarrow> py_error + (bool \<times> TokenBucket)" where
  "consume now n b =
     (if per b = 0 then Inl ZeroDivisionError
      else
        let elapsed = now - last_update b;
            b1 = b\<lparr>tokens := min (of_int (rate b))
                                (tokens b + elapsed * of_int (rate b) / of_int (per b)),
                   last_update := now\<rparr>
        in if tokens b1 \<ge> of_int n
           then Inr (True, b1\<lparr>tokens := tokens b1 - of_int n\<rparr>)
           else Inr (False, b1))"

definition wait_time :: "TokenBucket \<Rightarrow> py_error + rat" where
  "wait_time b =
     (if tokens b \<ge> 1 then Inr 0
      else if rate b = 0 then Inl ZeroDivisionError
      else Inr ((1 - tokens b) * of_int (per b) / of_int (rate b)))"

text \<open>
  \<open>RateLimiter.acquire\<close>. \<open>enabled\<close> is \<open>settings.enable_rate_limiting\<close>, \<open>t\<close> the clock
  at the first \<open>consume\<close>, and \<open>lag\<close> the time that passes between the two \<open>consume\<close>
  calls beyond the sleep itself, so that the second one reads the clock at
  \<open>t + wait + lag\<close>. The result is the returned flag, the list of the sleeps made and the
  limiter afterwards. \<open>time.sleep\<close> raises \<open>ValueError\<close> on a negative duration.
\<close>

record RateLimiter =
  limiters :: "string \<rightharpoonup> TokenBucket"

definition acquire ::
  "bool \<Rightarrow> string \<Rightarrow> int \<Rightarrow> bool \<Rightarrow> rat \<Rightarrow> rat \<Rightarrow> RateLimiter
     \<Rightarrow> py_error + (bool \<times> rat list \<times> RateLimiter)" where
  "acquire enabled service n wait t lag rl =
     (if \<not> enabled then Inr (True, [], rl)
      else case limiters rl service of
        None \<Rightarrow> Inr (True, [], rl)
      | Some limiter \<Rightarrow>
          (case consume t n limiter of
             Inl e \<Rightarrow> Inl e
           | Inr (ok, b1) \<Rightarrow>
               if ok then Inr (True, [], rl\<lparr>limiters := (limiters rl)(service \<mapsto> b1)\<rparr>)
               else if wait then
                 (case wait_time b1 of
                    Inl e \<Rightarrow> Inl e
                  | Inr w \<Rightarrow>
                      if w < 0 then Inl ValueError
                      else
                        (case consume (t + w + lag) n b1 of
                           Inl e \<Rightarrow> Inl e
                         | Inr (ok2, b2) \<Rightarrow>
                             Inr (ok2, [w], rl\<lparr>limiters := (limiters rl)(service \<mapsto> b2)\<rparr>)))
               else Inr (False, [], rl\<lparr>limiters := (limiters rl)(service \<mapsto> b1)\<rparr>)))"

text \<open>What a caller observes of a call: the flag and the sleeps, or the error raised.\<close>

definition observed ::
  "py_error + (bool \<times> rat list \<times> RateLimiter) \<Rightarrow> py_error + (bool \<times> rat list)" where
  "observed r = map_sum id (\<lambda>x. (fst x, fst (snd x))) r"

definition one_bucket :: "int \<Rightarrow> rat \<Rightarrow> RateLimiter" where
  "one_bucket r tok =
     \<lparr>limiters = [''github'' \<mapsto> \<lparr>rate = r, per = 60, tokens = tok, last_update = 0\<rparr>]\<rparr>"

text \<open>
  C3 fails on the code for a bucket of rate 0: it never holds a token, so a non-blocking
  acquire is refused, and the blocking one divides by the rate in \<open>wait_time\<close>.
\<close>

theorem acquire_rate_zero_counterexample:
  "observed (acquire True ''github'' 1 False 5 0 (one_bucket 0 0)) = Inr (False, [])
   \<and> observed (acquire True ''github'' 1 True 5 0 (one_bucket 0 0)) = Inl ZeroDivisionError"
  by (simp add: observed_def acquire_def one_bucket_def consume_def wait_time_def Let_def)

text \<open>
  C3 as amended. While rate limiting is disabled, and for a service that has no bucket,
  \<open>acquire\<close> returns true at once: no sleep, no error, the limiter untouched. On a bucket
  of rate 0 a non-blocking acquire of one or more tokens returns false, without sleeping.
\<close>

theorem acquire_disabled_or_rate_zero:
  "acquire False service n wait t lag rl = Inr (True, [], rl)
   \<and> (limiters rl service = None \<longrightarrow> acquire True service n wait t lag rl = Inr (True, [], rl))
   \<and> (limiters rl service = Some b \<and> rate b = 0 \<and> per b \<noteq> 0 \<and> 1 \<le> n \<longrightarrow>
        observed (acquire True service n False t lag rl) = Inr (False, []))"
  by (simp add: observed_def acquire_def consume_def Let_def)

theorem acquire_disabled_or_rate_zero_witness:
  "limiters (one_bucket 0 0) ''youtube'' = None
   \<and> acquire True ''youtube'' 1 True 5 0 (one_bucket 0 0) = Inr (True, [], one_bucket 0 0)
   \<and> limiters (one_bucket 0 0) ''github''
       = Some \<lparr>rate = 0, per = 60, tokens = 0, last_update = 0\<rparr>
   \<and> observed (acquire True ''github'' 1 False 5 0 (one_bucket 0 0)) = Inr (False, [])"
proof -
  have n: "limiters (one_bucket 0 0) ''youtube'' = None"
    by (simp add: one_bucket_def)
  have s: "limiters (one_bucket 0 0) ''github''
             = Some \<lparr>rate = 0, per = 60, tokens = 0, last_update = 0\<rparr>"
    by (simp add: one_bucket_def)
  note t1 = acquire_disabled_or_rate_zero [where service = "''youtube''" and n = 1
      and wait = True and t = 5 and lag = 0 and rl = "one_bucket 0 0"
      and b = "\<lparr>rate = 0, per = 60, tokens = 0, last_update = 0\<rparr>"]
  note t2 = acquire_disabled_or_rate_zero [where service = "''github''" and n = 1
      and wait = True and t = 5 and lag = 0 and rl = "one_bucket 0 0"
      and b = "\<lparr>rate = 0, per = 60, tokens = 0, last_update = 0\<rparr>"]
  show ?thesis
    using n s t1 t2 by simp
qed

text \<open>
  C4 on the code. A bucket of two requests per minute is empty; a blocking acquire of two
  tokens waits the thirty seconds one token needs, finds one token where it asked for two,
  and returns false. With one token in the bucket it sleeps for zero seconds and returns
  false as well.
\<close>

theorem acquire_blocking_two_tokens:
  "observed (acquire True ''github'' 2 True 0 0 (one_bucket 2 0)) = Inr (False, [30])
   \<and> observed (acquire True ''github'' 2 True 0 29 (one_bucket 2 0)) = Inr (False, [30])
   \<and> observed (acquire True ''github'' 2 True 0 0 (one_bucket 2 1)) = Inr (False, [0])"
  by (simp add: observed_def acquire_def one_bucket_def consume_def wait_time_def Let_def)

text \<open>
  For a single token the blocking path does what its caller expects, when the sleep is exact:
  it sleeps once, for the time the missing fraction of a token needs, and succeeds.
\<close>

lemma acquire_blocking_one_token:
  assumes "limiters rl service = Some b" and "0 < per b" and "1 \<le> rate b"
    and "t = last_update b" and "tokens b < 1"
  shows "observed (acquire True service 1 True t 0 rl)
           = Inr (True, [(1 - tokens b) * of_int (per b) / of_int (rate b)])"
proof -
  have r: "(1::rat) \<le> of_int (rate b)" using assms(3) by simp
  have lt: "tokens b < of_int (rate b)" using assms(5) r by linarith
  have c1: "consume t 1 b = Inr (False, b)"
    using assms lt by (simp add: consume_def Let_def min_def)
  have w: "wait_time b = Inr ((1 - tokens b) * of_int (per b) / of_int (rate b))"
    using assms by (simp add: wait_time_def)
  let ?w = "(1 - tokens b) * of_int (per b) / of_int (rate b)"
  have w0: "0 \<le> ?w" using assms r by simp
  have undo: "?w * of_int (rate b) / of_int (per b) = 1 - tokens b"
    using assms(2,3) by simp
  have c2: "fst (projr (consume (t + ?w + 0) 1 b)) = True \<and> isl (consume (t + ?w + 0) 1 b) = False"
    using assms r undo by (simp add: consume_def Let_def min_def)
  show ?thesis
    using assms(1) c1 w w0 c2
    by (auto simp: observed_def acquire_def split: sum.splits prod.splits)
qed

section \<open>Retry with backoff (utils/error\_handler.py)\<close>

text \<open>
  The wrapped function may answer differently on each call: \<open>func k\<close> is the outcome of its
  \<open>k\<close>-th call, counted from 0. \<open>catches e\<close> says that \<open>e\<close> is an instance of one of the
  \<open>exceptions\<close> of the decorator. The delays are floats, modelled as rationals. An
  exception object is true as a condition, so the final \<open>if last_exception\<close> tests that one
  was caught. \<open>time.sleep\<close> raises \<open>ValueError\<close> on a negative duration; it is called
  inside the \<open>except\<close> block, so that error leaves the wrapper at once.
\<close>

datatype ('e, 'v) outcome = Returns 'v | Raises 'e

datatype ('e, 'v) wrapper_result = Returned 'v | Raised 'e | RaisedValueError | ReturnedNone

text \<open>
  The body of the \<open>for\<close> loop over the remaining attempts, with the local variables
  \<open>current_delay\<close> and \<open>last_exception\<close>, the sleeps made so far and the number of calls of
  \<open>func\<close> so far.
\<close>

fun retry_loop ::
  "(nat \<Rightarrow> ('e, 'v) outcome) \<Rightarrow> ('e \<Rightarrow> bool) \<Rightarrow> int \<Rightarrow> rat \<Rightarrow> nat list \<Rightarrow> rat \<Rightarrow> 'e option
     \<Rightarrow> rat list \<Rightarrow> nat \<Rightarrow> ('e, 'v) wrapper_result \<times> rat list \<times> nat" where
  "retry_loop func catches max_retries backoff [] current_delay last_exception sleeps calls =
     (case last_exception of
        Some e \<Rightarrow> (Raised e, sleeps, calls)
      | None \<Rightarrow> (ReturnedNone, sleeps, calls))"
| "retry_loop func catches max_retries backoff (attempt # rest) current_delay last_exception
     sleeps calls =
     (case func calls of
        Returns v \<Rightarrow> (Returned v, sleeps, Suc calls)
      | Raises e \<Rightarrow>
          if catches e then
            (if int attempt < max_retries
             then
               (if current_delay < 0 then (RaisedValueError, sleeps, Suc calls)
                else retry_loop func catches max_retries backoff rest (current_delay * backoff)
                       (Some e) (sleeps @ [current_delay]) (Suc calls))
             else retry_loop func catches max_retries backoff rest current_delay
                    (Some e) sleeps (Suc calls))
          else (Raised e, sleeps, Suc calls))"

definition retry_on_error ::
  "int \<Rightarrow> rat \<Rightarrow> rat \<Rightarrow> ('e \<Rightarrow> bool) \<Rightarrow> (nat \<Rightarrow> ('e, 'v) outcome)
     \<Rightarrow> ('e, 'v) wrapper_result \<times> rat list \<times> nat" where
  "retry_on_error max_retries delay backoff catches func =
     retry_loop func catches max_retries backoff [0..<nat (max_retries + 1)] delay None [] 0"

text \<open>The \<open>k\<close>-th call fails with an error the decorator retries on.\<close>

definition fails_retryably :: "(nat \<Rightarrow> ('e, 'v) outcome) \<Rightarrow> ('e \<Rightarrow> bool) \<Rightarrow> nat \<Rightarrow> bool" where
  "fails_retryably func catches k = (case func k of Returns v \<Rightarrow> False | Raises e \<Rightarrow> catches e)"

definition backoff_delays :: "rat \<Rightarrow> rat \<Rightarrow> nat \<Rightarrow> rat list" where
  "backoff_delays delay backoff k = map (\<lambda>i. delay * backoff ^ i) [0..<k]"

lemma backoff_delays_Suc:
  "d # backoff_delays (d * b) b k = backoff_delays d b (Suc k)"
proof -
  have "map (\<lambda>i. d * b ^ i) [0..<Suc k] = d * b ^ 0 # map (\<lambda>i. d * b ^ Suc i) [0..<k]"
    by (simp only: map_upt_Suc)
  then show ?thesis
    by (simp add: backoff_delays_def mult.assoc)
qed

lemma upt_nat_step:
  assumes "int a \<le> mr"
  shows "[a..<nat (mr + 1)] = a # [Suc a..<nat (mr + 1)]"
  using assms by (simp add: upt_conv_Cons)

text \<open>
  After \<open>k\<close> retryable failures from call \<open>a\<close> on, all of them before the last attempt and
  none with a negative delay to sleep, the loop stands at attempt \<open>a + k\<close> with the delay
  multiplied \<open>k\<close> times.
\<close>

lemma retry_loop_failures:
  assumes "\<forall>i. a \<le> i \<and> i < a + k \<longrightarrow> fails_retryably func catches i"
    and "int (a + k) \<le> mr"
    and "\<forall>i<k. 0 \<le> d * b ^ i"
  shows "\<exists>prev'. (k = 0 \<longrightarrow> prev' = prev) \<and>
           retry_loop func catches mr b [a..<nat (mr + 1)] d prev sl a =
           retry_loop func catches mr b [a + k..<nat (mr + 1)] (d * b ^ k) prev'
             (sl @ backoff_delays d b k) (a + k)"
  using assms
proof (induction k arbitrary: a d prev sl)
  case 0
  show ?case by (simp add: backoff_delays_def)
next
  case (Suc k)
  from Suc.prems(1) have "fails_retryably func catches a" by simp
  then obtain e where e: "func a = Raises e" "catches e"
    by (auto simp: fails_retryably_def split: outcome.splits)
  have lt: "int a < mr" using Suc.prems(2) by simp
  have d0: "\<not> d < 0" using Suc.prems(3) by force
  have step: "retry_loop func catches mr b [a..<nat (mr + 1)] d prev sl a =
                retry_loop func catches mr b [Suc a..<nat (mr + 1)] (d * b) (Some e) (sl @ [d]) (Suc a)"
    using e lt d0 by (subst upt_nat_step) simp_all
  have h1: "\<forall>i. Suc a \<le> i \<and> i < Suc a + k \<longrightarrow> fails_retryably func catches i"
    using Suc.prems(1) by simp
  have h2: "int (Suc a + k) \<le> mr" using Suc.prems(2) by simp
  have h3: "\<forall>i<k. 0 \<le> d * b * b ^ i"
  proof (intro allI impI)
    fix i assume "i < k"
    then have "0 \<le> d * b ^ Suc i" using Suc.prems(3) by (metis Suc_less_eq)
    then show "0 \<le> d * b * b ^ i" by (simp add: mult.assoc)
  qed
  obtain prev' where
    "retry_loop func catches mr b [Suc a..<nat (mr + 1)] (d * b) (Some e) (sl @ [d]) (Suc a) =
     retry_loop func catches mr b [Suc a + k..<nat (mr + 1)] (d * b * b ^ k) prev'
       ((sl @ [d]) @ backoff_delays (d * b) b k) (Suc a + k)"
    using Suc.IH [OF h1 h2 h3, where prev = "Some e" and sl = "sl @ [d]"] by blast
  with step show ?case
    by (auto simp: backoff_delays_Suc [symmetric] mult.assoc)
qed

lemma retry_loop_calls_le:
  "snd (snd (retry_loop func catches mr b xs d prev sl c)) \<le> c + length xs"
proof (induction xs arbitrary: d prev sl c)
  case Nil
  show ?case by (simp split: option.splits)
next
  case (Cons x xs)
  show ?case
  proof (cases "func c")
    case (Returns v)
    then show ?thesis by simp
  next
    case (Raises e)
    show ?thesis
      using Raises
        Cons.IH [where d = "d * b" and prev = "Some e" and sl = "sl @ [d]" and c = "Suc c"]
        Cons.IH [where d = d and prev = "Some e" and sl = sl and c = "Suc c"]
      by simp
  qed
qed

lemma retry_on_error_reaches:
  assumes "int k \<le> mr" and "\<forall>i<k. fails_retryably func catches i"
    and "\<forall>i<k. 0 \<le> d * b ^ i"
  shows "\<exists>prev. retry_on_error mr d b catches func =
           retry_loop func catches mr b (k # [Suc k..<nat (mr + 1)]) (d * b ^ k) prev
             (backoff_delays d b k) k"
proof -
  have "\<forall>i. 0 \<le> i \<and> i < 0 + k \<longrightarrow> fails_retryably func catches i"
    using assms(2) by simp
  moreover have "int (0 + k) \<le> mr" using assms(1) by simp
  ultimately obtain prev where
    "retry_loop func catches mr b [0..<nat (mr + 1)] d None [] 0 =
     retry_loop func catches mr b [0 + k..<nat (mr + 1)] (d * b ^ k) prev
       ([] @ backoff_delays d b k) (0 + k)"
    using retry_loop_failures [where a = 0 and k = k and func = func and catches = catches
        and mr = mr and b = b and d = d and prev = None and sl = "[]"] assms(3)
    by blast
  then show ?thesis
    using upt_nat_step [OF assms(1)] by (auto simp: retry_on_error_def)
qed

text \<open>
  A negative delay ends the wrapper at the first sleep: a retryable failure of the first call,
  with a retry still allowed, raises \<open>ValueError\<close> after that one call and no sleep.
\<close>

lemma retry_on_error_negative_delay:
  assumes "fails_retryably func catches 0" and "0 < max_retries" and "delay < 0"
  shows "retry_on_error max_retries delay backoff catches func = (RaisedValueError, [], Suc 0)"
proof -
  obtain e where e: "func 0 = Raises e" "catches e"
    using assms(1) by (auto simp: fails_retryably_def split: outcome.splits)
  have "[0..<nat (max_retries + 1)] = 0 # [Suc 0..<nat (max_retries + 1)]"
    using assms(2) upt_nat_step [of 0 max_retries] by simp
  then show ?thesis
    using e assms(2,3) by (simp add: retry_on_error_def)
qed

text \<open>
  C9. \<open>backoff_delays delay backoff k\<close> is the list of \<open>delay * backoff ^ i\<close> for
  \<open>i = 0, \<dots>, k - 1\<close>. Let the first \<open>k\<close> calls fail with retryable errors, with
  \<open>k \<le> max_retries\<close>, and let none of those \<open>k\<close> delays be negative, as a duration to
  sleep must be. If call \<open>k\<close> returns, the wrapper returns its value after exactly those
  \<open>k\<close> sleeps and \<open>k + 1\<close> calls. If call \<open>k\<close> raises an error that is not retryable,
  the wrapper raises it, again after those \<open>k\<close> sleeps and no further call; for \<open>k = 0\<close>
  that is no sleep and no retry, whatever the delay. If \<open>k = max_retries\<close> and call \<open>k\<close>
  fails with a retryable error too, the wrapper raises that last error, without a further
  sleep. The function is never called more than \<open>max_retries + 1\<close> times.
\<close>

theorem retry_on_error_policy:
  "(int k \<le> max_retries \<and> (\<forall>i<k. fails_retryably func catches i)
        \<and> (\<forall>i<k. 0 \<le> delay * backoff ^ i) \<and> func k = Returns v \<longrightarrow>
      retry_on_error max_retries delay backoff catches func
        = (Returned v, backoff_delays delay backoff k, Suc k))
   \<and> (int k \<le> max_retries \<and> (\<forall>i<k. fails_retryably func catches i)
        \<and> (\<forall>i<k. 0 \<le> delay * backoff ^ i) \<and> func k = Raises e \<and> \<not> catches e \<longrightarrow>
      retry_on_error max_retries delay backoff catches func
        = (Raised e, backoff_delays delay backoff k, Suc k))
   \<and> (int k = max_retries \<and> (\<forall>i<k. fails_retryably func catches i)
        \<and> (\<forall>i<k. 0 \<le> delay * backoff ^ i) \<and> func k = Raises e \<and> catches e \<longrightarrow>
      retry_on_error max_retries delay backoff catches func
        = (Raised e, backoff_delays delay backoff k, Suc k))
   \<and> snd (snd (retry_on_error max_retries delay backoff catches func)) \<le> nat (max_retries + 1)"
proof (intro conjI impI)
  assume h: "int k \<le> max_retries \<and> (\<forall>i<k. fails_retryably func catches i)
               \<and> (\<forall>i<k. 0 \<le> delay * backoff ^ i) \<and> func k = Returns v"
  then obtain prev where
    "retry_on_error max_retries delay backoff catches func =
       retry_loop func catches max_retries backoff (k # [Suc k..<nat (max_retries + 1)])
         (delay * backoff ^ k) prev (backoff_delays delay backoff k) k"
    using retry_on_error_reaches [where k = k and mr = max_retries and func = func
        and catches = catches and d = delay and b = backoff] by blast
  with h show "retry_on_error max_retries delay backoff catches func
                 = (Returned v, backoff_delays delay backoff k, Suc k)"
    by simp
next
  assume h: "int k \<le> max_retries \<and> (\<forall>i<k. fails_retryably func catches i)
               \<and> (\<forall>i<k. 0 \<le> delay * backoff ^ i) \<and> func k = Raises e \<and> \<not> catches e"
  then obtain prev where
    "retry_on_error max_retries delay backoff catches func =
       retry_loop func catches max_retries backoff (k # [Suc k..<nat (max_retries + 1)])
         (delay * backoff ^ k) prev (backoff_delays delay backoff k) k"
    using retry_on_error_reaches [where k = k and mr = max_retries and func = func
        and catches = catches and d = delay and b = backoff] by blast
  with h show "retry_on_error max_retries delay backoff catches func
                 = (Raised e, backoff_delays delay backoff k, Suc k)"
    by simp
next
  assume h: "int k = max_retries \<and> (\<forall>i<k. fails_retryably func catches i)
               \<and> (\<forall>i<k. 0 \<le> delay * backoff ^ i) \<and> func k = Raises e \<and> catches e"
  then obtain prev where
    "retry_on_error max_retries delay backoff catches func =
       retry_loop func catches max_retries backoff (k # [Suc k..<nat (max_retries + 1)])
         (delay * backoff ^ k) prev (backoff_delays delay backoff k) k"
    using retry_on_error_reaches [where k = k and mr = max_retries and func = func
        and catches = catches and d = delay and b = backoff] by auto
  moreover have "[Suc k..<nat (max_retries + 1)] = []"
    using h by auto
  ultimately show "retry_on_error max_retries delay backoff catches func
                 = (Raised e, backoff_delays delay backoff k, Suc k)"
    using h by simp
next
  show "snd (snd (retry_on_error max_retries delay backoff catches func)) \<le> nat (max_retries + 1)"
    using retry_loop_calls_le [where func = func and catches = catches and mr = max_retries
        and b = backoff and xs = "[0..<nat (max_retries + 1)]" and d = delay and prev = None
        and sl = "[]" and c = 0]
    by (simp add: retry_on_error_def)
qed

definition flaky :: "nat \<Rightarrow> (string, nat) outcome" where
  "flaky k = (if k < 2 then Raises ''APIError'' else Returns 7)"

definition always_fails :: "nat \<Rightarrow> (string, nat) outcome" where
  "always_fails k = Raises ''APIError''"

definition is_APIError :: "string \<Rightarrow> bool" where
  "is_APIError e \<longleftrightarrow> e = ''APIError''"

theorem retry_on_error_policy_witness:
  "retry_on_error 3 2 2 is_APIError flaky = (Returned 7, [2, 4], 3)
   \<and> retry_on_error 3 2 2 is_APIError always_fails = (Raised ''APIError'', [2, 4, 8], 4)"
proof -
  have p: "\<forall>i. (0::rat) \<le> 2 * 2 ^ i" by simp
  have f: "int 2 \<le> 3 \<and> (\<forall>i<2. fails_retryably flaky is_APIError i)
           \<and> (\<forall>i<2. (0::rat) \<le> 2 * 2 ^ i) \<and> flaky 2 = Returns 7"
    using p by (simp add: fails_retryably_def flaky_def is_APIError_def)
  have a: "int 3 = 3 \<and> (\<forall>i<3. fails_retryably always_fails is_APIError i)
           \<and> (\<forall>i<3. (0::rat) \<le> 2 * 2 ^ i)
           \<and> always_fails 3 = Raises ''APIError'' \<and> is_APIError ''APIError''"
    using p by (simp add: fails_retryably_def always_fails_def is_APIError_def)
  have d: "backoff_delays 2 2 2 = [2, 4]" "backoff_delays 2 2 3 = [2, 4, 8]"
    by (simp_all add: backoff_delays_def upt_rec)
  have "retry_on_error 3 2 2 is_APIError flaky = (Returned 7, backoff_delays 2 2 2, Suc 2)"
    using f retry_on_error_policy [where k = 2 and max_retries = 3 and func = flaky
        and catches = is_APIError and v = 7 and delay = 2 and backoff = 2]
    by blast
  moreover have "retry_on_error 3 2 2 is_APIError always_fails
                   = (Raised ''APIError'', backoff_delays 2 2 3, Suc 3)"
    using a retry_on_error_policy [where k = 3 and max_retries = 3 and func = always_fails
        and catches = is_APIError and e = "''APIError''" and delay = 2 and backoff = 2]
    by blast
  ultimately show ?thesis
    using d by simp
qed

section \<open>Response cache (utils/cache.py)\<close>

text \<open>
  A cached value is any Python object, \<open>None\<close> included. \<open>datetime.now()\<close> is a parameter
  of \<open>get\<close> and \<open>set\<close>.
\<close>

datatype 'v pyval = PyNone | Val 'v

record 'v InMemoryCache =
  entries :: "string \<rightharpoonup> ('v pyval \<times> datetime)"
  default_ttl :: int

definition InMemoryCache_get ::
  "datetime \<Rightarrow> string \<Rightarrow> 'v InMemoryCache \<Rightarrow> 'v pyval \<times> 'v InMemoryCache" where
  "InMemoryCache_get now key c =
     (case entries c key of
        Some (val, expiry) \<Rightarrow>
          if now < expiry then (val, c)
          else (PyNone, c\<lparr>entries := (entries c)(key := None)\<rparr>)
      | None \<Rightarrow> (PyNone, c))"

text \<open>\<open>ttl or self._ttl\<close>: a \<open>ttl\<close> that is \<open>None\<close> or 0 gives way to the default.\<close>

definition ttl_or :: "int option \<Rightarrow> int \<Rightarrow> int" where
  "ttl_or ttl dflt = (case ttl of None \<Rightarrow> dflt | Some t \<Rightarrow> if t = 0 then dflt else t)"

definition InMemoryCache_set ::
  "datetime \<Rightarrow> string \<Rightarrow> 'v pyval \<Rightarrow> int option \<Rightarrow> 'v InMemoryCache \<Rightarrow> 'v InMemoryCache" where
  "InMemoryCache_set now key val ttl c =
     (let expiry = now + timedelta (ttl_or ttl (default_ttl c))
      in c\<lparr>entries := (entries c)(key \<mapsto> (val, expiry))\<rparr>)"

text \<open>
  The cache manager over the in-memory backend; its \<open>_cache\<close> is \<open>None\<close> when caching was
  disabled at construction.
\<close>

type_synonym 'v CacheManager = "'v InMemoryCache option"

definition CacheManager_get ::
  "datetime \<Rightarrow> string \<Rightarrow> 'v CacheManager \<Rightarrow> 'v pyval \<times> 'v CacheManager" where
  "CacheManager_get now key cm =
     (case cm of
        None \<Rightarrow> (PyNone, None)
      | Some c \<Rightarrow> (case InMemoryCache_get now key c of (val, c') \<Rightarrow> (val, Some c')))"

definition CacheManager_set ::
  "datetime \<Rightarrow> string \<Rightarrow> 'v pyval \<Rightarrow> int option \<Rightarrow> 'v CacheManager \<Rightarrow> 'v CacheManager" where
  "CacheManager_set now key val ttl cm =
     (case cm of None \<Rightarrow> None | Some c \<Rightarrow> Some (InMemoryCache_set now key val ttl c))"

text \<open>
  The wrapper of the \<open>cached\<close> decorator for one call. \<open>enable_caching\<close> is the setting,
  \<open>cache_key\<close> the key generated from the arguments, \<open>t_get\<close> and \<open>t_set\<close> the clock at the
  lookup and at the store, and \<open>func_result\<close> what the wrapped function returns if it is
  called. The value is what the wrapper returns, whether it called the function, and the cache
  manager afterwards.
\<close>

definition cached ::
  "bool \<Rightarrow> int option \<Rightarrow> string \<Rightarrow> datetime \<Rightarrow> datetime \<Rightarrow> 'v pyval \<Rightarrow> 'v CacheManager
     \<Rightarrow> 'v pyval \<times> bool \<times> 'v CacheManager" where
  "cached enable_caching ttl cache_key t_get t_set func_result cm =
     (if \<not> enable_caching then (func_result, True, cm)
      else
        case CacheManager_get t_get cache_key cm of
          (cached_result, cm1) \<Rightarrow>
            if cached_result \<noteq> PyNone then (cached_result, False, cm1)
            else (func_result, True, CacheManager_set t_set cache_key func_result ttl cm1))"

text \<open>
  A run of identical calls of a function that returns \<open>None\<close> every time, one pair of clock
  readings per call: the list says for each call whether the function was executed.
\<close>

fun calls_returning_None ::
  "bool \<Rightarrow> int option \<Rightarrow> string \<Rightarrow> (datetime \<times> datetime) list \<Rightarrow> 'v CacheManager \<Rightarrow> bool list" where
  "calls_returning_None en ttl key [] cm = []"
| "calls_returning_None en ttl key ((t_get, t_set) # ts) cm =
     (case cached en ttl key t_get t_set PyNone cm of
        (res, executed, cm') \<Rightarrow> executed # calls_returning_None en ttl key ts cm')"

text \<open>Nothing but \<open>None\<close> is stored under the key.\<close>

definition holds_no_value :: "string \<Rightarrow> 'v CacheManager \<Rightarrow> bool" where
  "holds_no_value key cm =
     (case cm of
        None \<Rightarrow> True
      | Some c \<Rightarrow> (case entries c key of None \<Rightarrow> True | Some (val, expiry) \<Rightarrow> val = PyNone))"

lemma get_holds_no_value:
  assumes "holds_no_value key cm"
  shows "fst (CacheManager_get now key cm) = PyNone"
    and "holds_no_value key (snd (CacheManager_get now key cm))"
  using assms
  by (auto simp: holds_no_value_def CacheManager_get_def InMemoryCache_get_def
        split: option.splits prod.splits)

lemma cached_holds_no_value:
  assumes "holds_no_value key cm"
  shows "cached en ttl key t_get t_set res cm =
           (res, True,
            if en then CacheManager_set t_set key res ttl (snd (CacheManager_get t_get key cm))
            else cm)"
  using get_holds_no_value [OF assms, of t_get]
  by (auto simp: cached_def split: prod.splits)

lemma set_None_holds_no_value:
  "holds_no_value key (CacheManager_set now key PyNone ttl cm)"
  by (simp add: holds_no_value_def CacheManager_set_def InMemoryCache_set_def Let_def
        split: option.splits)

lemma executed_None_holds_no_value:
  assumes "cached en ttl key t_get t_set PyNone cm = (res, True, cm1)" and "en"
  shows "holds_no_value key cm1"
  using assms set_None_holds_no_value [of key t_set ttl]
  by (auto simp: cached_def split: prod.splits if_splits)

lemma calls_returning_None_all:
  assumes "holds_no_value key cm"
  shows "calls_returning_None en ttl key ts cm = replicate (length ts) True"
  using assms
proof (induction ts arbitrary: cm)
  case Nil
  show ?case by simp
next
  case (Cons t ts)
  obtain t_get t_set where t: "t = (t_get, t_set)" by (cases t)
  let ?cm = "if en then CacheManager_set t_set key PyNone ttl (snd (CacheManager_get t_get key cm))
             else cm"
  have "holds_no_value key ?cm"
    using Cons.prems by (simp add: set_None_holds_no_value)
  then have "calls_returning_None en ttl key ts ?cm = replicate (length ts) True"
    by (rule Cons.IH)
  then show ?case
    using cached_holds_no_value [OF Cons.prems, of en ttl t_get t_set PyNone]
    by (simp add: t)
qed

text \<open>
  C10. Let one call of the wrapper, with caching enabled, execute the function and get
  \<open>None\<close> from it. Then the entry that call stored reads as \<open>None\<close> at every later time,
  as an absent entry does; the next identical call executes the function whatever the clock
  says and returns what the function returns; and in any run of further identical calls in
  which the function keeps returning \<open>None\<close>, every call executes it. With caching
  disabled the function is executed in any case.
\<close>

theorem cached_None_is_a_miss:
  fixes cm :: "'v CacheManager"
  assumes "cached True ttl key t_get t_set PyNone cm = (res, True, cm1)"
  shows "fst (CacheManager_get now key cm1) = PyNone
         \<and> fst (CacheManager_get now key (None :: 'v CacheManager)) = (PyNone :: 'v pyval)
         \<and> fst (cached True ttl key t_get' t_set' res' cm1) = res'
         \<and> fst (snd (cached True ttl key t_get' t_set' res' cm1)) = True
         \<and> calls_returning_None True ttl key ts cm1 = replicate (length ts) True
         \<and> fst (snd (cached False ttl key t_get' t_set' res' cm1)) = True"
proof -
  have h: "holds_no_value key cm1"
    using executed_None_holds_no_value [OF assms] by simp
  show ?thesis
    using get_holds_no_value(1) [OF h, of now] cached_holds_no_value [OF h, of True ttl t_get' t_set' res']
      calls_returning_None_all [OF h, of True ttl ts]
    by (simp add: CacheManager_get_def cached_def)
qed

definition empty_cache :: "nat CacheManager" where
  "empty_cache = Some \<lparr>entries = Map.empty, default_ttl = 3600\<rparr>"

definition cache_after_None :: "nat CacheManager" where
  "cache_after_None =
     Some \<lparr>entries = [''github:search:k'' \<mapsto> (PyNone, 3600000000)], default_ttl = 3600\<rparr>"

theorem cached_None_is_a_miss_witness:
  "cached True None ''github:search:k'' 0 0 PyNone empty_cache = (PyNone, True, cache_after_None)
   \<and> fst (snd (cached True None ''github:search:k'' 5 6 (Val 3) cache_after_None)) = True
   \<and> calls_returning_None True None ''github:search:k'' [(1, 2), (3, 4)] cache_after_None
       = [True, True]"
proof -
  have f: "cached True None ''github:search:k'' 0 0 PyNone empty_cache
             = (PyNone, True, cache_after_None)"
    by (simp add: cached_def CacheManager_get_def InMemoryCache_get_def CacheManager_set_def
          InMemoryCache_set_def empty_cache_def cache_after_None_def ttl_or_def timedelta_def)
  show ?thesis
    using f cached_None_is_a_miss [OF f, where t_get' = 5 and t_set' = 6 and res' = "Val 3"
        and ts = "[(1, 2), (3, 4)]" and now = 10]
    by simp
qed

section \<open>Skill matching (agents/skill\_gap\_analyzer.py)\<close>

text \<open>
  A character is a code point below 256. \<open>str.lower\<close> moves the capital letters of that
  range, A to Z and the accented capitals 192 to 222 without the multiplication sign 215, up
  by 32; \<open>str.strip\<close> removes the characters for which \<open>str.isspace\<close> holds from both
  ends: 9 to 13, 28 to 32, 133 and 160.
\<close>

definition py_isspace :: "char \<Rightarrow> bool" where
  "py_isspace c =
     (let n = (of_char c :: nat)
      in (9 \<le> n \<and> n \<le> 13) \<or> (28 \<le> n \<and> n \<le> 32) \<or> n = 133 \<or> n = 160)"

definition py_lower_char :: "char \<Rightarrow> char" where
  "py_lower_char c =
     (let n = (of_char c :: nat)
      in if (65 \<le> n \<and> n \<le> 90) \<or> (192 \<le> n \<and> n \<le> 222 \<and> n \<noteq> 215)
         then char_of (n + 32) else c)"

definition lower :: "string \<Rightarrow> string" where
  "lower s = map py_lower_char s"

definition strip :: "string \<Rightarrow> string" where
  "strip s = rev (dropWhile py_isspace (rev (dropWhile py_isspace s)))"

text \<open>\<open>s.replace(c, "")\<close> for a single character \<open>c\<close>.\<close>

definition remove_char :: "char \<Rightarrow> string \<Rightarrow> string" where
  "remove_char c s = filter (\<lambda>x. x \<noteq> c) s"

definition normalize_skill :: "string \<Rightarrow> string" where
  "normalize_skill skill =
     remove_char CHR '' '' (remove_char CHR ''-'' (remove_char CHR ''.'' (strip (lower skill))))"

definition normalize_skills :: "string list \<Rightarrow> string set" where
  "normalize_skills skills =
     foldl (\<lambda>normalized skill. insert (normalize_skill skill) normalized) {} skills"

subsection \<open>Normalisation\<close>

lemma foldl_insert_image: "foldl (\<lambda>A x. insert (f x) A) B xs = B \<union> f ` set xs"
  by (induction xs arbitrary: B) auto

lemma normalize_skills_image: "normalize_skills skills = normalize_skill ` set skills"
  by (simp add: normalize_skills_def foldl_insert_image)

lemma of_char_less_256: "(of_char c :: nat) < 256"
proof -
  have "(of_char c :: nat) = of_char c mod 256" by (simp only: of_char_mod_256)
  then show ?thesis by (metis mod_less_divisor zero_less_numeral)
qed

lemma of_char_lower:
  "(of_char (py_lower_char c) :: nat) =
     (if (65 \<le> (of_char c :: nat) \<and> (of_char c :: nat) \<le> 90)
         \<or> (192 \<le> (of_char c :: nat) \<and> (of_char c :: nat) \<le> 222 \<and> (of_char c :: nat) \<noteq> 215)
      then of_char c + 32 else of_char c)"
  by (auto simp: py_lower_char_def Let_def)

lemma py_lower_char_idem: "py_lower_char (py_lower_char c) = py_lower_char c"
proof -
  have nu: "\<not> ((65 \<le> (of_char (py_lower_char c) :: nat) \<and> (of_char (py_lower_char c) :: nat) \<le> 90)
          \<or> (192 \<le> (of_char (py_lower_char c) :: nat) \<and> (of_char (py_lower_char c) :: nat) \<le> 222
              \<and> (of_char (py_lower_char c) :: nat) \<noteq> 215))"
    using of_char_less_256 [of c] by (auto simp: of_char_lower split: if_splits)
  show ?thesis
    unfolding py_lower_char_def [of "py_lower_char c"] Let_def
    using nu by auto
qed

lemma py_isspace_lower: "py_isspace (py_lower_char c) = py_isspace c"
  by (auto simp: py_isspace_def of_char_lower Let_def)

lemma dropWhile_length_eq:
  assumes "length (dropWhile P xs) = length xs"
  shows "dropWhile P xs = xs"
proof -
  have "length (takeWhile P xs) + length (dropWhile P xs) = length xs"
    by (simp only: length_append [symmetric] takeWhile_dropWhile_id)
  then have "length (takeWhile P xs) = 0" using assms by simp
  then have "takeWhile P xs @ dropWhile P xs = dropWhile P xs" by simp
  then show ?thesis by simp
qed

lemma strip_fixed_iff:
  "strip t = t \<longleftrightarrow> t = [] \<or> (\<not> py_isspace (hd t) \<and> \<not> py_isspace (last t))"
proof (cases "t = []")
  case True
  then show ?thesis by (simp add: strip_def)
next
  case False
  then have r: "rev t \<noteq> []" by simp
  show ?thesis
  proof
    assume s: "strip t = t"
    have "length (strip t) \<le> length (dropWhile py_isspace t)"
      unfolding strip_def
      using length_dropWhile_le [of py_isspace "rev (dropWhile py_isspace t)"] by simp
    then have "length t \<le> length (dropWhile py_isspace t)" using s by simp
    then have "length (dropWhile py_isspace t) = length t"
      using length_dropWhile_le [of py_isspace t] by simp
    then have d: "dropWhile py_isspace t = t" by (rule dropWhile_length_eq)
    then have h: "\<not> py_isspace (hd t)" using False by (simp add: dropWhile_eq_self_iff)
    have "rev (dropWhile py_isspace (rev t)) = t" using s d by (simp add: strip_def)
    then have "dropWhile py_isspace (rev t) = rev t" by (simp add: rev_swap)
    then have "\<not> py_isspace (hd (rev t))" using r by (simp add: dropWhile_eq_self_iff)
    then have "\<not> py_isspace (last t)" by (simp add: hd_rev)
    with h show "t = [] \<or> (\<not> py_isspace (hd t) \<and> \<not> py_isspace (last t))" by simp
  next
    assume "t = [] \<or> (\<not> py_isspace (hd t) \<and> \<not> py_isspace (last t))"
    with False have h: "\<not> py_isspace (hd t)" and l: "\<not> py_isspace (last t)" by simp_all
    have d: "dropWhile py_isspace t = t" using h by (simp add: dropWhile_eq_self_iff)
    have "\<not> py_isspace (hd (rev t))" using l by (simp add: hd_rev)
    then have "dropWhile py_isspace (rev t) = rev t" by (simp add: dropWhile_eq_self_iff)
    with d show "strip t = t" by (simp add: strip_def)
  qed
qed

lemma strip_no_space:
  assumes "\<forall>c\<in>set t. \<not> py_isspace c"
  shows "strip t = t"
proof (cases "t = []")
  case True
  then show ?thesis by (simp add: strip_def)
next
  case False
  then have "hd t \<in> set t" and "last t \<in> set t" by simp_all
  with assms have "\<not> py_isspace (hd t) \<and> \<not> py_isspace (last t)" by blast
  then show ?thesis by (simp add: strip_fixed_iff)
qed

lemma strip_idem: "strip (strip s) = strip s"
proof (cases "strip s = []")
  case True
  have "strip [] = []" by (simp add: strip_def)
  with True show ?thesis by simp
next
  case False
  let ?u = "dropWhile py_isspace s"
  let ?v = "dropWhile py_isspace (rev ?u)"
  have sv: "strip s = rev ?v" by (simp add: strip_def)
  have v: "?v \<noteq> []" using False sv by simp
  then have hv: "\<not> py_isspace (hd ?v)" by (rule hd_dropWhile)
  have u: "?u \<noteq> []"
  proof
    assume "?u = []"
    then have "?v = dropWhile py_isspace (rev [])" by (rule arg_cong)
    with v show False by simp
  qed
  then have hu: "\<not> py_isspace (hd ?u)" by (rule hd_dropWhile)
  have l: "last (strip s) = hd ?v" by (simp only: sv last_rev)
  have "takeWhile py_isspace (rev ?u) @ ?v = rev ?u" by (rule takeWhile_dropWhile_id)
  then have "rev (takeWhile py_isspace (rev ?u) @ ?v) = ?u" by (simp only: rev_rev_ident)
  then have "rev ?v @ rev (takeWhile py_isspace (rev ?u)) = ?u" by (simp only: rev_append)
  then have "hd ?u = hd (rev ?v @ rev (takeWhile py_isspace (rev ?u)))" by (rule arg_cong [symmetric, of _ _ hd, THEN sym, THEN sym])
  also have "\<dots> = hd (rev ?v)" using v by (simp only: hd_append2 rev_is_Nil_conv not_False_eq_True)
  finally have h: "hd (strip s) = hd ?u" by (simp only: sv)
  show ?thesis
    using hu hv False by (simp only: strip_fixed_iff h l) simp
qed

lemma set_strip: "set (strip s) \<subseteq> set s"
proof -
  have "set (strip s) \<subseteq> set (dropWhile py_isspace s)"
    unfolding strip_def using set_dropWhileD [of _ py_isspace "rev (dropWhile py_isspace s)"]
    by auto
  then show ?thesis
    using set_dropWhileD [of _ py_isspace s] by blast
qed

lemma normalize_skill_chars:
  assumes "c \<in> set (normalize_skill s)"
  shows "c \<noteq> CHR '' ''" and "c \<noteq> CHR ''-''" and "c \<noteq> CHR ''.''"
    and "\<exists>c'\<in>set s. c = py_lower_char c'"
proof -
  from assms show "c \<noteq> CHR '' ''" and "c \<noteq> CHR ''-''" and "c \<noteq> CHR ''.''"
    by (simp_all add: normalize_skill_def remove_char_def)
  from assms have "c \<in> set (strip (lower s))"
    by (simp add: normalize_skill_def remove_char_def)
  then have "c \<in> set (lower s)" using set_strip by blast
  then show "\<exists>c'\<in>set s. c = py_lower_char c'" by (auto simp: lower_def)
qed

lemma normalize_skill_again: "normalize_skill (normalize_skill s) = strip (normalize_skill s)"
proof -
  let ?t = "normalize_skill s"
  have "\<And>x. x \<in> set ?t \<Longrightarrow> py_lower_char x = x"
  proof -
    fix x assume "x \<in> set ?t"
    then obtain c' where "x = py_lower_char c'"
      using normalize_skill_chars(4) by blast
    then show "py_lower_char x = x" by (simp add: py_lower_char_idem)
  qed
  then have "lower ?t = ?t"
    unfolding lower_def by (rule map_idI)
  moreover have "\<forall>c\<in>set (strip ?t). c \<noteq> CHR '' '' \<and> c \<noteq> CHR ''-'' \<and> c \<noteq> CHR ''.''"
    using set_strip [of ?t] normalize_skill_chars(1-3) [of _ s] by blast
  ultimately show ?thesis
    by (subst normalize_skill_def) (simp add: remove_char_def)
qed

lemma normalize_skills_twice:
  assumes "set ys = normalize_skills xs"
  shows "normalize_skills ys = strip ` normalize_skills xs"
proof -
  have "normalize_skills ys = normalize_skill ` normalize_skills xs"
    using assms by (simp add: normalize_skills_image)
  also have "\<dots> = strip ` normalize_skills xs"
    by (rule image_cong) (auto simp: normalize_skills_image normalize_skill_again)
  finally show ?thesis .
qed

lemma normalize_skills_idem_iff:
  assumes "set ys = normalize_skills xs"
  shows "normalize_skills ys = normalize_skills xs \<longleftrightarrow> (\<forall>t\<in>normalize_skills xs. strip t = t)"
proof
  assume e: "normalize_skills ys = normalize_skills xs"
  show "\<forall>t\<in>normalize_skills xs. strip t = t"
  proof
    fix t assume "t \<in> normalize_skills xs"
    then have "t \<in> strip ` normalize_skills xs"
      using e normalize_skills_twice [OF assms] by simp
    then obtain u where "t = strip u" by blast
    then show "strip t = t" by (simp add: strip_idem)
  qed
next
  assume "\<forall>t\<in>normalize_skills xs. strip t = t"
  then have "strip ` normalize_skills xs = normalize_skills xs" by force
  then show "normalize_skills ys = normalize_skills xs"
    using normalize_skills_twice [OF assms] by simp
qed

lemma normalize_skills_plain_names:
  assumes "\<forall>s\<in>set xs. \<forall>c\<in>set s. py_isspace c \<longrightarrow> c = CHR '' ''"
  shows "\<forall>t\<in>normalize_skills xs. strip t = t"
proof
  fix t assume "t \<in> normalize_skills xs"
  then obtain s where s: "s \<in> set xs" "t = normalize_skill s"
    by (auto simp: normalize_skills_image)
  have "\<forall>c\<in>set t. \<not> py_isspace c"
  proof
    fix c assume c: "c \<in> set t"
    then obtain c' where c': "c' \<in> set s" "c = py_lower_char c'"
      using normalize_skill_chars(4) s(2) by blast
    show "\<not> py_isspace c"
    proof
      assume "py_isspace c"
      then have "py_isspace c'" using c'(2) by (simp add: py_isspace_lower)
      then have "c' = CHR '' ''" using assms s(1) c'(1) by blast
      then have "c = CHR '' ''" using c'(2) by (simp add: py_lower_char_def)
      then show False using normalize_skill_chars(1) c s(2) by blast
    qed
  qed
  then show "strip t = t" by (rule strip_no_space)
qed

text \<open>
  C8 fails on the code: normalisation is not idempotent. \<open>strip\<close> runs before the dots,
  hyphens and spaces are removed, so the name \<open>".\tx"\<close> (a dot, a tab, an x) keeps its tab,
  and normalising the result once more strips it.
\<close>

theorem normalize_skills_idempotent_counterexample:
  "normalize_skills [[CHR ''.'', CHR 0x09, CHR ''x'']] = {[CHR 0x09, CHR ''x'']}
   \<and> normalize_skills [[CHR 0x09, CHR ''x'']] = {''x''}
   \<and> normalize_skills [[CHR 0x09, CHR ''x'']] \<noteq> normalize_skills [[CHR ''.'', CHR 0x09, CHR ''x'']]"
  by code_simp

text \<open>
  C8 as amended. Normalising the names of a normalised set again, in any order \<open>ys\<close>, gives
  the same set exactly when no normalised name begins or ends with a whitespace character,
  that is when \<open>strip\<close> leaves each of them as it is. That is so whenever the names hold no
  whitespace character but the space. Two lists with the same multiset of names normalise to
  the same set, and the three names of the scenario normalise as the spec says.
\<close>

theorem normalize_skills_idempotent_order_independent:
  "(set ys = normalize_skills xs \<longrightarrow>
      (normalize_skills ys = normalize_skills xs \<longleftrightarrow> (\<forall>t\<in>normalize_skills xs. strip t = t)))
   \<and> ((\<forall>s\<in>set xs. \<forall>c\<in>set s. py_isspace c \<longrightarrow> c = CHR '' '') \<longrightarrow>
        (\<forall>t\<in>normalize_skills xs. strip t = t))
   \<and> (mset xs = mset zs \<longrightarrow> normalize_skills xs = normalize_skills zs)
   \<and> normalize_skills [''React.js'', ''Node.js'', ''Python 3''] = {''reactjs'', ''nodejs'', ''python3''}"
proof (intro conjI impI)
  assume "set ys = normalize_skills xs"
  then show "normalize_skills ys = normalize_skills xs \<longleftrightarrow> (\<forall>t\<in>normalize_skills xs. strip t = t)"
    by (rule normalize_skills_idem_iff)
next
  assume "\<forall>s\<in>set xs. \<forall>c\<in>set s. py_isspace c \<longrightarrow> c = CHR '' ''"
  then show "\<forall>t\<in>normalize_skills xs. strip t = t"
    by (rule normalize_skills_plain_names)
next
  assume "mset xs = mset zs"
  then have "set xs = set zs" by (rule mset_eq_setD)
  then show "normalize_skills xs = normalize_skills zs"
    by (simp add: normalize_skills_image)
next
  show "normalize_skills [''React.js'', ''Node.js'', ''Python 3'']
          = {''reactjs'', ''nodejs'', ''python3''}"
    by code_simp
qed

theorem normalize_skills_idempotent_order_independent_witness:
  "set [''nodejs'', ''reactjs''] = normalize_skills [''React.js'', ''Node.js'']
   \<and> normalize_skills [''nodejs'', ''reactjs''] = normalize_skills [''React.js'', ''Node.js'']
   \<and> mset [''React.js'', ''Node.js''] = mset [''Node.js'', ''React.js'']
   \<and> normalize_skills [''React.js'', ''Node.js''] = normalize_skills [''Node.js'', ''React.js'']"
proof -
  have s: "set [''nodejs'', ''reactjs''] = normalize_skills [''React.js'', ''Node.js'']"
    by code_simp
  have p: "\<forall>s\<in>set [''React.js'', ''Node.js'']. \<forall>c\<in>set s. py_isspace c \<longrightarrow> c = CHR '' ''"
    by code_simp
  have m: "mset [''React.js'', ''Node.js''] = mset [''Node.js'', ''React.js'']"
    by simp
  note t = normalize_skills_idempotent_order_independent
    [where ys = "[''nodejs'', ''reactjs'']" and xs = "[''React.js'', ''Node.js'']"
       and zs = "[''Node.js'', ''React.js'']"]
  have "normalize_skills [''nodejs'', ''reactjs''] = normalize_skills [''React.js'', ''Node.js'']"
    using t s p by blast
  moreover have "normalize_skills [''React.js'', ''Node.js''] = normalize_skills [''Node.js'', ''React.js'']"
    using t m by blast
  ultimately show ?thesis
    using s m by blast
qed

subsection \<open>Gap analysis\<close>

text \<open>
  \<open>ratio a b\<close> stands for \<open>difflib.SequenceMatcher(None, a, b).ratio()\<close> of the standard
  library. The loops of \<open>_find_matches\<close> run over sets; what they collect does not depend on
  the order: a job skill is matched when it is among the CV skills or some CV skill is similar
  enough.
\<close>

definition find_matches ::
  "(string \<Rightarrow> string \<Rightarrow> rat) \<Rightarrow> string set \<Rightarrow> string set \<Rightarrow> rat \<Rightarrow> string set" where
  "find_matches ratio cv_skills job_skills similarity_threshold =
     Set.filter
       (\<lambda>job_skill. job_skill \<in> cv_skills
          \<or> (\<exists>cv_skill\<in>cv_skills. similarity_threshold \<le> ratio job_skill cv_skill))
       job_skills"

text \<open>
  \<open>round(x, 1)\<close> on the exact value: to the nearest tenth, a tie going to the even
  neighbour.
\<close>

definition round_half_even :: "rat \<Rightarrow> int" where
  "round_half_even x =
     (let f = \<lfloor>x\<rfloor>; d = x - of_int f
      in if d < 1 / 2 then f else if 1 / 2 < d then f + 1 else if even f then f else f + 1)"

definition py_round1 :: "rat \<Rightarrow> rat" where
  "py_round1 x = of_int (round_half_even (x * 10)) / 10"

text \<open>
  The fields of \<open>SkillMatchAnalysis\<close> that \<open>analyze_gaps\<close> computes from the skill names;
  the lists it builds from sets are kept as sets. The arguments are the name lists that
  \<open>get_all_skill_names\<close>, \<open>get_required_skill_names\<close> and \<open>get_preferred_skill_names\<close>
  return.
\<close>

record SkillMatchAnalysis =
  total_required_skills :: nat
  matched_skills :: "string set"
  missing_required_skills :: "string set"
  missing_preferred_skills :: "string set"
  match_percentage :: rat

definition analyze_gaps ::
  "(string \<Rightarrow> string \<Rightarrow> rat) \<Rightarrow> string list \<Rightarrow> string list \<Rightarrow> string list \<Rightarrow> SkillMatchAnalysis" where
  "analyze_gaps ratio cv_names required_names preferred_names =
     (let cv_skills = normalize_skills cv_names;
          required_skills = normalize_skills required_names;
          preferred_skills = normalize_skills preferred_names;
          matched_required = find_matches ratio cv_skills required_skills (17 / 20);
          matched_preferred = find_matches ratio cv_skills preferred_skills (17 / 20);
          missing_required = required_skills - matched_required;
          missing_preferred = preferred_skills - matched_preferred;
          total_required = card required_skills;
          percentage =
            (if total_required > 0
             then (of_nat (card matched_required) / of_nat total_required) * 100
             else 100)
      in \<lparr>total_required_skills = total_required,
          matched_skills = matched_required \<union> matched_preferred,
          missing_required_skills = missing_required,
          missing_preferred_skills = missing_preferred,
          match_percentage = py_round1 percentage\<rparr>)"

lemma round_half_even_near:
  "\<bar>of_int (round_half_even x) - x\<bar> \<le> 1 / 2"
proof -
  have "of_int \<lfloor>x\<rfloor> \<le> x" and "x < of_int \<lfloor>x\<rfloor> + 1" by linarith+
  then show ?thesis
    by (auto simp: round_half_even_def Let_def)
qed

lemma round_half_even_range:
  assumes "0 \<le> x" and "x \<le> of_int n"
  shows "0 \<le> round_half_even x" and "round_half_even x \<le> n"
proof -
  have f0: "0 \<le> \<lfloor>x\<rfloor>" using assms(1) by simp
  then show "0 \<le> round_half_even x"
    by (auto simp: round_half_even_def Let_def)
  have fn: "\<lfloor>x\<rfloor> \<le> n" using assms(2) by (simp add: floor_le_iff)
  show "round_half_even x \<le> n"
  proof (cases "\<lfloor>x\<rfloor> = n")
    case True
    then have "x - of_int \<lfloor>x\<rfloor> \<le> 0" using assms(2) by simp
    then show ?thesis using True by (auto simp: round_half_even_def Let_def)
  next
    case False
    with fn have "\<lfloor>x\<rfloor> + 1 \<le> n" by simp
    then show ?thesis using fn by (auto simp: round_half_even_def Let_def)
  qed
qed

lemma py_round1_near: "\<bar>py_round1 x - x\<bar> \<le> 1 / 20"
proof -
  have "\<bar>of_int (round_half_even (x * 10)) - x * 10\<bar> \<le> 1 / 2"
    by (rule round_half_even_near)
  then have "\<bar>(of_int (round_half_even (x * 10)) - x * 10) / 10\<bar> \<le> (1 / 2) / 10"
    by (simp only: abs_divide) simp
  then show ?thesis
    by (simp add: py_round1_def diff_divide_distrib)
qed

lemma py_round1_range:
  assumes "0 \<le> x" and "x \<le> 100"
  shows "0 \<le> py_round1 x" and "py_round1 x \<le> 100"
proof -
  have a: "0 \<le> x * 10" and b: "x * 10 \<le> of_int 1000" using assms by simp_all
  have "0 \<le> round_half_even (x * 10)" by (rule round_half_even_range(1) [OF a b])
  then show "0 \<le> py_round1 x" by (simp add: py_round1_def)
  have "round_half_even (x * 10) \<le> 1000" by (rule round_half_even_range(2) [OF a b])
  then have "(of_int (round_half_even (x * 10)) :: rat) \<le> of_int 1000" by (simp only: of_int_le_iff)
  then show "py_round1 x \<le> 100" by (simp add: py_round1_def)
qed

lemma finite_normalize_skills: "finite (normalize_skills xs)"
  by (simp add: normalize_skills_image)

lemma card_find_matches_le: "card (find_matches ratio cv (normalize_skills xs) thr) \<le> card (normalize_skills xs)"
  by (rule card_mono) (auto simp: finite_normalize_skills find_matches_def)

lemma match_ratio_range:
  fixes m n :: nat
  assumes "m \<le> n" and "0 < n"
  shows "0 \<le> (of_nat m / of_nat n :: rat) * 100" and "(of_nat m / of_nat n :: rat) * 100 \<le> 100"
proof -
  show "0 \<le> (of_nat m / of_nat n :: rat) * 100" by simp
  have "(of_nat m :: rat) \<le> of_nat n" using assms(1) by simp
  then have "(of_nat m / of_nat n :: rat) \<le> 1" using assms(2) by (simp add: divide_le_eq)
  then have "(of_nat m / of_nat n :: rat) * 100 \<le> 1 * 100" by (rule mult_right_mono) simp
  then show "(of_nat m / of_nat n :: rat) * 100 \<le> 100" by (simp only: mult_1)
qed

lemma match_percentage_analyze_gaps:
  "match_percentage (analyze_gaps ratio cv req pref) =
     py_round1
       (if 0 < card (normalize_skills req)
        then of_nat (card (find_matches ratio (normalize_skills cv) (normalize_skills req) (17 / 20)))
               / of_nat (card (normalize_skills req)) * 100
        else 100)"
  by (simp add: analyze_gaps_def Let_def)

lemma py_round1_100: "py_round1 100 = 100"
  by (simp add: py_round1_def round_half_even_def)

text \<open>
  The similarity ratios of the standard library on the names of the spec's scenario:
  required Python, React, Node.js; preferred TypeScript; candidate Python, JavaScript, React.
\<close>

definition scenario_ratio :: "string \<Rightarrow> string \<Rightarrow> rat" where
  "scenario_ratio a b =
     (case map_of
        [((''python'', ''python''), 1), ((''python'', ''javascript''), 1 / 4),
         ((''python'', ''react''), 2 / 11), ((''react'', ''python''), 2 / 11),
         ((''react'', ''javascript''), 4 / 15), ((''react'', ''react''), 1),
         ((''nodejs'', ''python''), 1 / 6), ((''nodejs'', ''javascript''), 1 / 4),
         ((''nodejs'', ''react''), 2 / 11), ((''typescript'', ''python''), 1 / 8),
         ((''typescript'', ''javascript''), 3 / 5), ((''typescript'', ''react''), 2 / 15)]
        (a, b) of
        Some r \<Rightarrow> r
      | None \<Rightarrow> 0)"

definition scenario_analysis :: SkillMatchAnalysis where
  "scenario_analysis =
     analyze_gaps scenario_ratio [''Python'', ''JavaScript'', ''React'']
       [''Python'', ''React'', ''Node.js''] [''TypeScript'']"

text \<open>
  C7 fails on the code as an equation: \<open>analyze_gaps\<close> stores
  \<open>round(match_percentage, 1)\<close>. In the scenario two of three required skills are matched
  and the result holds 66.7, which is not 100 times 2 / 3.
\<close>

theorem match_percentage_exact_counterexample:
  "match_percentage scenario_analysis = 667 / 10
   \<and> missing_required_skills scenario_analysis = {''nodejs''}
   \<and> card (find_matches scenario_ratio
          (normalize_skills [''Python'', ''JavaScript'', ''React''])
          (normalize_skills [''Python'', ''React'', ''Node.js'']) (17 / 20)) = 2
   \<and> card (normalize_skills [''Python'', ''React'', ''Node.js'']) = 3
   \<and> match_percentage scenario_analysis \<noteq> 100 * 2 / 3"
  by code_simp

text \<open>
  C7 as amended. The match percentage of the result is 100 times the number of matched
  required skills over the number of required skills, rounded to one decimal place, and 100
  when there is no required skill. It differs from the exact quotient by at most 0.05 and lies
  between 0 and 100.
\<close>

theorem match_percentage_rounded:
  "match_percentage (analyze_gaps ratio cv req pref) =
     (if normalize_skills req = {} then 100
      else py_round1
             (100 * of_nat (card (find_matches ratio (normalize_skills cv) (normalize_skills req)
                                    (17 / 20)))
                / of_nat (card (normalize_skills req))))
   \<and> (normalize_skills req \<noteq> {} \<longrightarrow>
        \<bar>match_percentage (analyze_gaps ratio cv req pref)
           - 100 * of_nat (card (find_matches ratio (normalize_skills cv) (normalize_skills req)
                                   (17 / 20)))
               / of_nat (card (normalize_skills req))\<bar> \<le> 1 / 20)
   \<and> 0 \<le> match_percentage (analyze_gaps ratio cv req pref)
   \<and> match_percentage (analyze_gaps ratio cv req pref) \<le> 100"
proof (cases "normalize_skills req = {}")
  case True
  then show ?thesis
    by (simp add: match_percentage_analyze_gaps py_round1_100)
next
  case False
  let ?m = "card (find_matches ratio (normalize_skills cv) (normalize_skills req) (17 / 20))"
  let ?n = "card (normalize_skills req)"
  have n: "0 < ?n" using False by (simp add: card_gt_0_iff finite_normalize_skills)
  have mn: "?m \<le> ?n" by (rule card_find_matches_le)
  have e: "(of_nat ?m / of_nat ?n :: rat) * 100 = 100 * of_nat ?m / of_nat ?n" by simp
  have p: "match_percentage (analyze_gaps ratio cv req pref) = py_round1 (100 * of_nat ?m / of_nat ?n)"
    using n by (simp only: match_percentage_analyze_gaps if_True e)
  have r: "0 \<le> (100 * of_nat ?m / of_nat ?n :: rat)" "(100 * of_nat ?m / of_nat ?n :: rat) \<le> 100"
    using match_ratio_range [OF mn n] by (simp_all only: e)
  show ?thesis
    using False p py_round1_near [of "100 * of_nat ?m / of_nat ?n"] py_round1_range [OF r]
    by simp
qed

theorem match_percentage_rounded_witness:
  "normalize_skills [''Python'', ''React'', ''Node.js''] \<noteq> {}
   \<and> \<bar>match_percentage scenario_analysis - 100 * 2 / 3\<bar> \<le> 1 / 20
   \<and> match_percentage (analyze_gaps scenario_ratio [''Python''] [] []) = 100"
proof -
  have n: "normalize_skills [''Python'', ''React'', ''Node.js''] \<noteq> {}"
    by code_simp
  have c: "card (find_matches scenario_ratio
             (normalize_skills [''Python'', ''JavaScript'', ''React''])
             (normalize_skills [''Python'', ''React'', ''Node.js'']) (17 / 20)) = 2"
      "card (normalize_skills [''Python'', ''React'', ''Node.js'']) = 3"
    by code_simp+
  have e: "normalize_skills [] = {}"
    by (simp add: normalize_skills_def)
  note t = match_percentage_rounded [where ratio = scenario_ratio
      and cv = "[''Python'', ''JavaScript'', ''React'']"
      and req = "[''Python'', ''React'', ''Node.js'']" and pref = "[''TypeScript'']"]
  from t n have
    "\<bar>match_percentage (analyze_gaps scenario_ratio [''Python'', ''JavaScript'', ''React'']
         [''Python'', ''React'', ''Node.js''] [''TypeScript''])
       - 100 * of_nat (card (find_matches scenario_ratio
           (normalize_skills [''Python'', ''JavaScript'', ''React''])
           (normalize_skills [''Python'', ''React'', ''Node.js'']) (17 / 20)))
         / of_nat (card (normalize_skills [''Python'', ''React'', ''Node.js'']))\<bar> \<le> 1 / 20"
    by blast
  then have "\<bar>match_percentage scenario_analysis - 100 * of_nat 2 / of_nat 3\<bar> \<le> 1 / 20"
    by (simp only: c scenario_analysis_def)
  then have "\<bar>match_percentage scenario_analysis - 100 * 2 / 3\<bar> \<le> 1 / 20"
    by simp
  moreover have "match_percentage (analyze_gaps scenario_ratio [''Python''] [] []) = 100"
    using e match_percentage_rounded [where ratio = scenario_ratio and cv = "[''Python'']"
        and req = "[]" and pref = "[]"]
    by simp
  ultimately show ?thesis
    using n by blast
qed

end
